theory Spec2Isabelle
  imports Main
begin

section \<open>Python values, exceptions and strings\<close>

text \<open>
  The account manager signals every failure of its own with the single exception class
  \<open>AccountManagementException\<close>, told apart by its message only.  Exceptions of the
  Python runtime that the code does not catch (\<open>TypeError\<close>, \<open>KeyError\<close>,
  \<open>AttributeError\<close>, \<open>ValueError\<close>) leave a call as well and are results of their own.

  A Python \<open>str\<close> is modelled as a \<open>string\<close>; a \<open>char\<close> stands for the code point of the
  same number, so the model covers the strings whose code points lie below 256.
\<close>

datatype error =
    AccountManagementException string
  | TypeError
  | KeyError
  | AttributeError
  | ValueError

definition ord :: "char \<Rightarrow> nat" where
  "ord c = of_char c"

definition newline :: char where
  "newline = CHR 0x0A"

definition is_digit :: "char \<Rightarrow> bool" where
  "is_digit c = (ord CHR ''0'' \<le> ord c \<and> ord c \<le> ord CHR ''9'')"

text \<open>\<open>str(n)\<close> for an integer: the decimal digits, most significant first.\<close>

fun str_nat :: "nat \<Rightarrow> string" where
  "str_nat n = (if n < 10 then [char_of (ord CHR ''0'' + n)]
                else str_nat (n div 10) @ [char_of (ord CHR ''0'' + n mod 10)])"

definition py_str_int :: "int \<Rightarrow> string" where
  "py_str_int i = (if i < 0 then CHR ''-'' # str_nat (nat (- i)) else str_nat (nat i))"

text \<open>
  \<open>int(s)\<close> on the strings the code passes to it: a non-empty run of decimal digits is
  read in base ten (leading zeros allowed); anything else is a \<open>ValueError\<close>.
\<close>

definition digit_val :: "char \<Rightarrow> int" where
  "digit_val c = int (ord c) - int (ord CHR ''0'')"

definition dec :: "string \<Rightarrow> int" where
  "dec s = foldl (\<lambda>a c. 10 * a + digit_val c) 0 s"

definition py_int :: "string \<Rightarrow> error + int" where
  "py_int s = (if s \<noteq> [] \<and> list_all is_digit s then Inr (dec s) else Inl ValueError)"

section \<open>Regular expressions of the \<open>re\<close> module\<close>

text \<open>
  The fragment of Python's regular expressions that the account manager uses.  Groups
  only bracket and are not represented; \<open>Str\<close> is a run of literal characters.  A
  character class is its list of ranges.
  \<open>\d\<close>, \<open>\s\<close> and \<open>.\<close> have the meaning of a \<open>str\<close> pattern without flags, on code
  points below 256: the decimal digits, the characters for which \<open>str.isspace\<close> holds,
  and every character but the line feed.
\<close>

datatype atom =
    Cls "(char \<times> char) list"
  | Digit
  | Space
  | Dot

datatype rx =
    Atom atom
  | Str string
  | Bol
  | Eol
  | Seq rx rx
  | Alt rx rx
  | Plus rx
  | Rep nat nat rx
  | Look rx

fun atom_matches :: "atom \<Rightarrow> char \<Rightarrow> bool" where
  "atom_matches (Cls rs) x = list_ex (\<lambda>(lo, hi). ord lo \<le> ord x \<and> ord x \<le> ord hi) rs"
| "atom_matches Digit x = is_digit x"
| "atom_matches Space x = (ord x \<in> set [9, 10, 11, 12, 13, 28, 29, 30, 31, 32, 133, 160])"
| "atom_matches Dot x = (x \<noteq> newline)"

text \<open>
  A position of the matcher is the number of characters consumed so far with the input
  that remains.  \<open>rx_run r p\<close> lists the positions at which a match of \<open>r\<close> that starts
  at \<open>p\<close> can end, which is what a backtracking matcher explores.  \<open>^\<close> holds at the
  start of the string; \<open>$\<close> holds at its end and just before a line feed that ends it.
  \<open>Rep m n r\<close> is \<open>r{m,n}\<close>: \<open>m\<close> runs of \<open>r\<close> and then up to \<open>n - m\<close> more.  \<open>Plus r\<close> is
  \<open>r+\<close>: one run of \<open>r\<close> and then up to as many more as there are characters left, which
  reaches every position that runs consuming input can reach.  \<open>Look r\<close> is the lookahead
  \<open>(?=r)\<close>: it holds where \<open>r\<close> has a match and consumes nothing.
\<close>

type_synonym pos = "nat \<times> string"

primrec rep_exact :: "(pos \<Rightarrow> pos list) \<Rightarrow> nat \<Rightarrow> pos \<Rightarrow> pos list" where
  "rep_exact f 0 p = [p]"
| "rep_exact f (Suc k) p = concat (map (rep_exact f k) (f p))"

primrec rep_upto :: "(pos \<Rightarrow> pos list) \<Rightarrow> nat \<Rightarrow> pos \<Rightarrow> pos list" where
  "rep_upto f 0 p = [p]"
| "rep_upto f (Suc k) p = p # concat (map (rep_upto f k) (f p))"

primrec rx_run :: "rx \<Rightarrow> pos \<Rightarrow> pos list" where
  "rx_run (Atom a) p =
     (case snd p of [] \<Rightarrow> []
      | c # cs \<Rightarrow> if atom_matches a c then [(Suc (fst p), cs)] else [])"
| "rx_run (Str w) p =
     (if take (length w) (snd p) = w then [(fst p + length w, drop (length w) (snd p))] else [])"
| "rx_run Bol p = (if fst p = 0 then [p] else [])"
| "rx_run Eol p = (if snd p = [] \<or> snd p = [newline] then [p] else [])"
| "rx_run (Seq r s) p = concat (map (rx_run s) (rx_run r p))"
| "rx_run (Alt r s) p = rx_run r p @ rx_run s p"
| "rx_run (Plus r) p = concat (map (rep_upto (rx_run r) (length (snd p))) (rx_run r p))"
| "rx_run (Rep m n r) p = concat (map (rep_upto (rx_run r) (n - m)) (rep_exact (rx_run r) m p))"
| "rx_run (Look r) p = (if rx_run r p = [] then [] else [p])"

text \<open>\<open>Pattern.fullmatch\<close>: some match that starts at the beginning consumes the whole string.\<close>

definition fullmatch :: "rx \<Rightarrow> string \<Rightarrow> bool" where
  "fullmatch r s = list_ex (\<lambda>p. snd p = []) (rx_run r (0, s))"

section \<open>IBAN validation\<close>

text \<open>\<^verbatim>\<open>re.compile(r"^ES[0-9]{22}")\<close>\<close>

definition iban_pattern :: rx where
  "iban_pattern = Seq Bol (Seq (Str ''ES'') (Rep 22 22 (Atom (Cls [(CHR ''0'', CHR ''9'')]))))"

text \<open>
  \<open>AccountManager.validate_iban\<close>: the format check, then the control digits are set to
  \<open>00\<close>, the first four characters move to the end, capital letters are replaced by
  their two-digit numbers, and 98 minus the remainder modulo 97 of the resulting number
  is compared with the control digits of the input.
\<close>

definition subst_letter :: "char \<Rightarrow> string" where
  "subst_letter ch =
     (if ord CHR ''A'' \<le> ord ch \<and> ord ch \<le> ord CHR ''Z''
      then py_str_int (int (ord ch) - int (ord CHR ''A'') + 10) else [ch])"

definition validate_iban :: "string \<Rightarrow> error + string" where
  "validate_iban iban_input =
     (if \<not> fullmatch iban_pattern iban_input
      then Inl (AccountManagementException ''Invalid IBAN format'')
      else
        let original_code = take 2 (drop 2 iban_input);
            iban1 = take 2 iban_input @ ''00'' @ drop 4 iban_input;
            iban2 = drop 4 iban1 @ take 4 iban1;
            iban3 = concat (map subst_letter iban2)
        in case py_int iban3 of
             Inl e \<Rightarrow> Inl e
           | Inr int_i \<Rightarrow>
               let md = int_i mod 97;
                   control_digit = 98 - md
               in case py_int original_code of
                    Inl e \<Rightarrow> Inl e
                  | Inr code \<Rightarrow>
                      if code \<noteq> control_digit
                      then Inl (AccountManagementException ''Invalid IBAN control digit'')
                      else Inr iban_input)"

section \<open>Concept, transfer type and date validation\<close>

text \<open>\<^verbatim>\<open>re.compile(r"^(?=^.{10,30}$)([a-zA-Z]+(\s[a-zA-Z]+)+)$")\<close>\<close>

definition letters :: rx where
  "letters = Plus (Atom (Cls [(CHR ''a'', CHR ''z''), (CHR ''A'', CHR ''Z'')]))"

definition concept_words :: rx where
  "concept_words = Seq letters (Plus (Seq (Atom Space) letters))"

definition concept_length :: rx where
  "concept_length = Seq Bol (Seq (Rep 10 30 (Atom Dot)) Eol)"

definition concept_pattern :: rx where
  "concept_pattern = Seq Bol (Seq (Look concept_length) (Seq concept_words Eol))"

text \<open>\<open>AccountManager.validate_concept\<close> returns nothing on success.\<close>

definition validate_concept :: "string \<Rightarrow> error + unit" where
  "validate_concept concept =
     (if \<not> fullmatch concept_pattern concept
      then Inl (AccountManagementException ''Invalid concept format'')
      else Inr ())"

text \<open>\<^verbatim>\<open>re.compile(r"(ORDINARY|INMEDIATE|URGENT)")\<close>\<close>

definition transfer_type_pattern :: rx where
  "transfer_type_pattern = Alt (Str ''ORDINARY'') (Alt (Str ''INMEDIATE'') (Str ''URGENT''))"

text \<open>\<^verbatim>\<open>re.compile(r"^(([0-2]\d|3[0-1])\/(0\d|1[0-2])\/\d\d\d\d)$")\<close>\<close>

definition date_group :: rx where
  "date_group =
     Seq (Alt (Seq (Atom (Cls [(CHR ''0'', CHR ''2'')])) (Atom Digit))
              (Seq (Str ''3'') (Atom (Cls [(CHR ''0'', CHR ''1'')]))))
    (Seq (Str ''/'')
    (Seq (Alt (Seq (Str ''0'') (Atom Digit))
              (Seq (Str ''1'') (Atom (Cls [(CHR ''0'', CHR ''2'')]))))
    (Seq (Str ''/'')
    (Seq (Atom Digit) (Seq (Atom Digit) (Seq (Atom Digit) (Atom Digit)))))))"

definition date_pattern :: rx where
  "date_pattern = Seq Bol (Seq date_group Eol)"

text \<open>
  A \<open>datetime.date\<close>: a day of the proleptic Gregorian calendar, ordered by year, month
  and day.
\<close>

record date =
  year :: int
  month :: int
  day :: int

definition date_less :: "date \<Rightarrow> date \<Rightarrow> bool" where
  "date_less a b =
     (year a < year b \<or> (year a = year b \<and> (month a < month b \<or>
        (month a = month b \<and> day a < day b))))"

definition is_leap :: "int \<Rightarrow> bool" where
  "is_leap y = (y mod 4 = 0 \<and> (y mod 100 \<noteq> 0 \<or> y mod 400 = 0))"

definition days_in_month :: "int \<Rightarrow> int \<Rightarrow> int" where
  "days_in_month y m =
     (if m = 2 then (if is_leap y then 29 else 28)
      else if m = 4 \<or> m = 6 \<or> m = 9 \<or> m = 11 then 30 else 31)"

text \<open>
  \<^verbatim>\<open>datetime.strptime(date_str, "%d/%m/%Y").date()\<close> on a string that \<open>date_pattern\<close>
  accepts: two digits of day, two of month and four of year.  The day must be a day of
  that month, the month lie between 1 and 12 and the year be at least 1
  (\<open>datetime.MINYEAR\<close>); otherwise \<open>strptime\<close> raises \<open>ValueError\<close>.
\<close>

definition strptime_dmY :: "string \<Rightarrow> error + date" where
  "strptime_dmY s =
     (let d = dec (take 2 s); m = dec (take 2 (drop 3 s)); y = dec (take 4 (drop 6 s))
      in if 1 \<le> y \<and> 1 \<le> m \<and> m \<le> 12 \<and> 1 \<le> d \<and> d \<le> days_in_month y m
         then Inr \<lparr>year = y, month = m, day = d\<rparr>
         else Inl ValueError)"

text \<open>
  \<open>AccountManager.validate_transfer_date\<close>.  The current UTC date,
  \<^verbatim>\<open>datetime.now(timezone.utc).date()\<close>, is the parameter \<open>today\<close>.
\<close>

definition validate_transfer_date :: "date \<Rightarrow> string \<Rightarrow> error + string" where
  "validate_transfer_date today date_str =
     (if \<not> fullmatch date_pattern date_str
      then Inl (AccountManagementException ''Invalid date format'')
      else case strptime_dmY date_str of
             Inl ex \<Rightarrow> Inl (AccountManagementException ''Invalid date format'')
           | Inr parsed_date \<Rightarrow>
               if date_less parsed_date today
               then Inl (AccountManagementException ''Transfer date must be today or later.'')
               else if year parsed_date < 2025 \<or> year parsed_date > 2050
               then Inl (AccountManagementException ''Invalid date format'')
               else Inr date_str)"

section \<open>JSON values and the Python runtime\<close>

text \<open>
  What \<open>json.load\<close> returns.  An object is the list of the items of the decoded \<open>dict\<close>.
  Numbers are values of a type \<open>'n\<close> that is left open: the arithmetic and the printing
  of Python's numbers (binary floating point) are parameters of the model, collected in
  the record \<open>python\<close> together with the SHA-256 digest of \<open>hashlib\<close>.
\<close>

datatype 'n json =
    JNull
  | JBool bool
  | JNum 'n
  | JStr string
  | JArr "'n json list"
  | JObj "(string \<times> 'n json) list"

text \<open>
  Modelled from the spec: the class \<open>TransferRequest\<close> (module \<open>transfer_request\<close>), of
  which the account manager reads the six attributes below, \<open>to_json\<close> and
  \<open>transfer_code\<close>.  The spec gives the fields, says that the code is computed from
  them, and names the keys of the stored record.  The amount is kept as it was passed:
  a number or a string.
\<close>

record 'n transfer_request =
  transfer_from_iban :: string
  transfer_to_iban :: string
  transfer_concept :: string
  transfer_type :: string
  transfer_date :: string
  transfer_amount :: "'n json"

record 'n python =
  float_of_str :: "string \<Rightarrow> 'n option"
  float_of_num :: "'n \<Rightarrow> 'n"
  num :: "int \<Rightarrow> 'n"
  add :: "'n \<Rightarrow> 'n \<Rightarrow> 'n"
  less :: "'n \<Rightarrow> 'n \<Rightarrow> bool"
  eq :: "'n json \<Rightarrow> 'n json \<Rightarrow> bool"
  str_of_num :: "'n \<Rightarrow> string"
  sha256_hexdigest :: "string \<Rightarrow> string"
  transfer_code :: "'n transfer_request \<Rightarrow> string"

text \<open>
  \<open>float_of_str\<close> is \<open>float(s)\<close> on a \<open>str\<close> (\<open>None\<close> when it raises \<open>ValueError\<close>),
  \<open>float_of_num\<close> is \<open>float(x)\<close> on a number, \<open>num\<close> an integer literal, \<open>add\<close> is \<open>+\<close>,
  \<open>less\<close> is \<open><\<close>, \<open>eq\<close> is \<open>==\<close> between two values, \<open>str_of_num\<close> is \<open>str(x)\<close>, which an
  f-string uses as well, \<open>sha256_hexdigest s\<close> is
  \<^verbatim>\<open>hashlib.sha256(s.encode()).hexdigest()\<close>, and \<open>transfer_code\<close> is the property of that
  name of a \<open>TransferRequest\<close>.
\<close>

text \<open>\<open>float(v)\<close>: a \<open>bool\<close> is an integer; \<open>None\<close>, lists and dicts are a \<open>TypeError\<close>.\<close>

definition py_float :: "'n python \<Rightarrow> 'n json \<Rightarrow> error + 'n" where
  "py_float E v =
     (case v of
        JNum x \<Rightarrow> Inr (float_of_num E x)
      | JBool b \<Rightarrow> Inr (float_of_num E (num E (if b then 1 else 0)))
      | JStr s \<Rightarrow> (case float_of_str E s of None \<Rightarrow> Inl ValueError | Some x \<Rightarrow> Inr x)
      | _ \<Rightarrow> Inl TypeError)"

text \<open>\<open>v[key]\<close> with a string key: only a dict can be subscripted by a string.\<close>

definition py_getitem :: "'n json \<Rightarrow> string \<Rightarrow> error + 'n json" where
  "py_getitem v key =
     (case v of
        JObj items \<Rightarrow> (case map_of items key of None \<Rightarrow> Inl KeyError | Some x \<Rightarrow> Inr x)
      | _ \<Rightarrow> Inl TypeError)"

text \<open>
  \<open>for x in v\<close>: the elements of a list, the keys of a dict, the characters of a string;
  nothing else can be iterated.
\<close>

definition py_iter :: "'n json \<Rightarrow> error + 'n json list" where
  "py_iter v =
     (case v of
        JArr xs \<Rightarrow> Inr xs
      | JObj items \<Rightarrow> Inr (map (\<lambda>kv. JStr (fst kv)) items)
      | JStr s \<Rightarrow> Inr (map (\<lambda>c. JStr [c]) s)
      | _ \<Rightarrow> Inl TypeError)"

text \<open>\<open>v.append(x)\<close>: only a list has the method.\<close>

definition py_append :: "'n json \<Rightarrow> 'n json \<Rightarrow> error + 'n json" where
  "py_append v x = (case v of JArr xs \<Rightarrow> Inr (JArr (xs @ [x])) | _ \<Rightarrow> Inl AttributeError)"

text \<open>\<open>pattern.fullmatch(v)\<close> on a decoded value: anything but a \<open>str\<close> is a \<open>TypeError\<close>.\<close>

definition py_fullmatch :: "rx \<Rightarrow> 'n json \<Rightarrow> error + bool" where
  "py_fullmatch r v = (case v of JStr s \<Rightarrow> Inr (fullmatch r s) | _ \<Rightarrow> Inl TypeError)"

text \<open>\<open>s.split(sep)\<close> for a separator of one character.\<close>

fun py_split :: "char \<Rightarrow> string \<Rightarrow> string list" where
  "py_split sep [] = [[]]"
| "py_split sep (c # cs) =
     (if c = sep then [] # py_split sep cs
      else case py_split sep cs of w # ws \<Rightarrow> (c # w) # ws | [] \<Rightarrow> [[c]])"

section \<open>Files\<close>

text \<open>
  A path names no file because its directory is missing (\<open>NoDirectory\<close>, so that it cannot
  be created either) or because the file is not there (\<open>Absent\<close>); a file holds text that
  is not JSON (\<open>Malformed\<close>) or a JSON value.  Opening a path without a file for reading,
  or a path without a directory for writing, raises \<open>FileNotFoundError\<close>.
\<close>

datatype 'n disk_file = NoDirectory | Absent | Malformed | Content "'n json"

datatype 'n loaded = FileNotFoundError | JSONDecodeError | Loaded "'n json"

definition json_load :: "'n disk_file \<Rightarrow> 'n loaded" where
  "json_load f =
     (case f of NoDirectory \<Rightarrow> FileNotFoundError | Absent \<Rightarrow> FileNotFoundError
      | Malformed \<Rightarrow> JSONDecodeError | Content v \<Rightarrow> Loaded v)"

definition json_dump :: "'n disk_file \<Rightarrow> 'n json \<Rightarrow> 'n disk_file option" where
  "json_dump f v = (case f of NoDirectory \<Rightarrow> None | _ \<Rightarrow> Some (Content v))"

text \<open>
  The files the account manager works on: the input files of deposits by path, and the
  four stores named by \<open>account_management_config\<close>.
\<close>

record 'n file_system =
  input_files :: "string \<Rightarrow> 'n disk_file"
  transfers_store :: "'n disk_file"
  deposits_store :: "'n disk_file"
  transactions_store :: "'n disk_file"
  balances_store :: "'n disk_file"

text \<open>
  The three stores that are written are read in the same way: a missing file is the
  empty list, text that is not JSON is an error.
\<close>

definition load_store :: "'n disk_file \<Rightarrow> error + 'n json" where
  "load_store f =
     (case json_load f of
        FileNotFoundError \<Rightarrow> Inr (JArr [])
      | JSONDecodeError \<Rightarrow> Inl (AccountManagementException ''JSON Decode Error - Wrong JSON Format'')
      | Loaded v \<Rightarrow> Inr v)"

definition save_store :: "'n disk_file \<Rightarrow> 'n json \<Rightarrow> error + 'n disk_file" where
  "save_store f v =
     (case json_dump f v of
        None \<Rightarrow> Inl (AccountManagementException ''Wrong file  or file path'')
      | Some f' \<Rightarrow> Inr f')"

section \<open>Deposits\<close>

text \<open>
  \<open>AccountDeposit\<close>.  The constructor fixes the algorithm and the type and takes the time
  stamp from the clock, \<^verbatim>\<open>datetime.timestamp(datetime.now(timezone.utc))\<close>, which is the
  parameter \<open>now\<close>.
\<close>

record 'n account_deposit =
  alg :: string
  type :: string
  to_iban :: string
  deposit_amount :: 'n
  deposit_timestamp :: 'n

definition AccountDeposit :: "'n \<Rightarrow> string \<Rightarrow> 'n \<Rightarrow> 'n account_deposit" where
  "AccountDeposit now iban amount =
     \<lparr>alg = ''SHA-256'', type = ''DEPOSIT'', to_iban = iban,
      deposit_amount = amount, deposit_timestamp = now\<rparr>"

definition get_signature_string :: "'n python \<Rightarrow> 'n account_deposit \<Rightarrow> string" where
  "get_signature_string E d =
     ''{alg:'' @ alg d @ '',typ:'' @ type d @ '',iban:'' @ to_iban d @
     '',amount:'' @ str_of_num E (deposit_amount d) @
     '',deposit_date:'' @ str_of_num E (deposit_timestamp d) @ ''}''"

definition deposit_signature :: "'n python \<Rightarrow> 'n account_deposit \<Rightarrow> string" where
  "deposit_signature E d = sha256_hexdigest E (get_signature_string E d)"

definition to_json :: "'n python \<Rightarrow> 'n account_deposit \<Rightarrow> 'n json" where
  "to_json E d =
     JObj [(''alg'', JStr (alg d)),
           (''type'', JStr (type d)),
           (''to_iban'', JStr (to_iban d)),
           (''deposit_amount'', JNum (deposit_amount d)),
           (''deposit_timestamp'', JNum (deposit_timestamp d)),
           (''deposit_signature'', JStr (deposit_signature E d))]"

text \<open>\<^verbatim>\<open>re.compile(r"^EUR [0-9]{4}\.[0-9]{2}")\<close>\<close>

definition deposit_amount_pattern :: rx where
  "deposit_amount_pattern =
     Seq Bol (Seq (Str ''EUR '') (Seq (Rep 4 4 (Atom (Cls [(CHR ''0'', CHR ''9'')])))
       (Seq (Str ''.'') (Rep 2 2 (Atom (Cls [(CHR ''0'', CHR ''9'')]))))))"

text \<open>
  \<open>AccountManager.deposit_into_account\<close>, in the order of the source: the two keys are read
  (a missing key is caught and reported), the IBAN and the amount are checked, the deposit
  is built, appended to the deposits store and its signature returned.  \<open>validate_iban\<close>
  and \<open>fullmatch\<close> raise \<open>TypeError\<close> on a value that is not a string.
\<close>

definition deposit_keys :: "'n json \<Rightarrow> error + 'n json \<times> 'n json" where
  "deposit_keys input_data =
     (case py_getitem input_data ''IBAN'' of
        Inl KeyError \<Rightarrow> Inl (AccountManagementException ''Error - Invalid Key in JSON'')
      | Inl e \<Rightarrow> Inl e
      | Inr iban_field \<Rightarrow>
          (case py_getitem input_data ''AMOUNT'' of
             Inl KeyError \<Rightarrow> Inl (AccountManagementException ''Error - Invalid Key in JSON'')
           | Inl e \<Rightarrow> Inl e
           | Inr amount_field \<Rightarrow> Inr (iban_field, amount_field)))"

definition validate_iban_value :: "'n json \<Rightarrow> error + string" where
  "validate_iban_value v = (case v of JStr s \<Rightarrow> validate_iban s | _ \<Rightarrow> Inl TypeError)"

definition deposit_amount_value :: "'n python \<Rightarrow> 'n json \<Rightarrow> error + 'n" where
  "deposit_amount_value E amount_field =
     (case py_fullmatch deposit_amount_pattern amount_field of
        Inl e \<Rightarrow> Inl e
      | Inr False \<Rightarrow> Inl (AccountManagementException ''Error - Invalid deposit amount'')
      | Inr True \<Rightarrow>
          (case amount_field of
             JStr s \<Rightarrow>
               (case float_of_str E (drop 4 s) of
                  None \<Rightarrow> Inl ValueError
                | Some v \<Rightarrow>
                    if eq E (JNum v) (JNum (num E 0))
                    then Inl (AccountManagementException ''Error - Deposit must be greater than 0'')
                    else Inr v)
           | _ \<Rightarrow> Inl TypeError))"

definition deposit_into_account ::
  "'n python \<Rightarrow> 'n \<Rightarrow> 'n file_system \<Rightarrow> string \<Rightarrow> (error + string) \<times> 'n file_system" where
  "deposit_into_account E now fs input_file =
     (case json_load (input_files fs input_file) of
        FileNotFoundError \<Rightarrow> (Inl (AccountManagementException ''Error: file input not found''), fs)
      | JSONDecodeError \<Rightarrow>
          (Inl (AccountManagementException ''JSON Decode Error - Wrong JSON Format''), fs)
      | Loaded input_data \<Rightarrow>
     (case deposit_keys input_data of
        Inl e \<Rightarrow> (Inl e, fs)
      | Inr (iban_field, amount_field) \<Rightarrow>
     (case validate_iban_value iban_field of
        Inl e \<Rightarrow> (Inl e, fs)
      | Inr deposit_iban \<Rightarrow>
     (case deposit_amount_value E amount_field of
        Inl e \<Rightarrow> (Inl e, fs)
      | Inr amount \<Rightarrow>
     (let deposit_obj = AccountDeposit now deposit_iban amount in
      case load_store (deposits_store fs) of
        Inl e \<Rightarrow> (Inl e, fs)
      | Inr deposit_list \<Rightarrow>
     (case py_append deposit_list (to_json E deposit_obj) of
        Inl e \<Rightarrow> (Inl e, fs)
      | Inr deposit_list' \<Rightarrow>
     (case save_store (deposits_store fs) deposit_list' of
        Inl e \<Rightarrow> (Inl e, fs)
      | Inr f \<Rightarrow> (Inr (deposit_signature E deposit_obj), fs\<lparr>deposits_store := f\<rparr>))))))))"

section \<open>Transfers\<close>

text \<open>
  Modelled from the spec: \<open>TransferRequest.to_json\<close>, the stored record with the keys
  the spec lists.
\<close>

definition transfer_to_json :: "'n python \<Rightarrow> 'n transfer_request \<Rightarrow> 'n json" where
  "transfer_to_json E t =
     JObj [(''from_iban'', JStr (transfer_from_iban t)),
           (''to_iban'', JStr (transfer_to_iban t)),
           (''transfer_type'', JStr (transfer_type t)),
           (''transfer_date'', JStr (transfer_date t)),
           (''transfer_amount'', transfer_amount t),
           (''transfer_concept'', JStr (transfer_concept t)),
           (''transfer_code'', JStr (transfer_code E t))]"

text \<open>
  The amount check of \<open>transfer_request\<close>: \<open>float(amount)\<close>, of which only a \<open>ValueError\<close>
  is caught; the digits after the point in \<open>str\<close> of that number; the range.
\<close>

definition validate_transfer_amount :: "'n python \<Rightarrow> 'n json \<Rightarrow> error + unit" where
  "validate_transfer_amount E amount =
     (case py_float E amount of
        Inl ValueError \<Rightarrow> Inl (AccountManagementException ''Invalid transfer amount'')
      | Inl e \<Rightarrow> Inl e
      | Inr amount_value \<Rightarrow>
          let amount_str = str_of_num E amount_value in
          if CHR ''.'' \<in> set amount_str \<and> length (py_split CHR ''.'' amount_str ! 1) > 2
          then Inl (AccountManagementException ''Invalid transfer amount'')
          else if less E amount_value (num E 10) \<or> less E (num E 10000) amount_value
          then Inl (AccountManagementException ''Invalid transfer amount'')
          else Inr ())"

text \<open>The validations of \<open>transfer_request\<close>, in their order; the first failure is raised.\<close>

definition validate_transfer ::
  "'n python \<Rightarrow> date \<Rightarrow> string \<Rightarrow> string \<Rightarrow> string \<Rightarrow> string \<Rightarrow> string \<Rightarrow> 'n json \<Rightarrow> error + unit" where
  "validate_transfer E today from_iban to_iban' concept transfer_type' date amount =
     (case validate_iban from_iban of Inl e \<Rightarrow> Inl e | Inr _ \<Rightarrow>
     (case validate_iban to_iban' of Inl e \<Rightarrow> Inl e | Inr _ \<Rightarrow>
     (case validate_concept concept of Inl e \<Rightarrow> Inl e | Inr _ \<Rightarrow>
     (if \<not> fullmatch transfer_type_pattern transfer_type'
      then Inl (AccountManagementException ''Invalid transfer type'')
      else
     (case validate_transfer_date today date of Inl e \<Rightarrow> Inl e | Inr _ \<Rightarrow>
      validate_transfer_amount E amount)))))"

text \<open>
  The test of the duplicate scan on one stored record.  The six comparisons are
  joined by \<open>and\<close>, so a key is looked up only when the comparisons before it held.
  A stored value equals a \<open>str\<close> exactly when it is that string; the amounts are compared
  by \<open>==\<close>.
\<close>

definition same_transfer :: "'n python \<Rightarrow> 'n json \<Rightarrow> 'n transfer_request \<Rightarrow> error + bool" where
  "same_transfer E existing_transfer new_transfer =
     (case py_getitem existing_transfer ''from_iban'' of Inl e \<Rightarrow> Inl e | Inr v1 \<Rightarrow>
      if v1 \<noteq> JStr (transfer_from_iban new_transfer) then Inr False else
     (case py_getitem existing_transfer ''to_iban'' of Inl e \<Rightarrow> Inl e | Inr v2 \<Rightarrow>
      if v2 \<noteq> JStr (transfer_to_iban new_transfer) then Inr False else
     (case py_getitem existing_transfer ''transfer_date'' of Inl e \<Rightarrow> Inl e | Inr v3 \<Rightarrow>
      if v3 \<noteq> JStr (transfer_date new_transfer) then Inr False else
     (case py_getitem existing_transfer ''transfer_amount'' of Inl e \<Rightarrow> Inl e | Inr v4 \<Rightarrow>
      if \<not> eq E v4 (transfer_amount new_transfer) then Inr False else
     (case py_getitem existing_transfer ''transfer_concept'' of Inl e \<Rightarrow> Inl e | Inr v5 \<Rightarrow>
      if v5 \<noteq> JStr (transfer_concept new_transfer) then Inr False else
     (case py_getitem existing_transfer ''transfer_type'' of Inl e \<Rightarrow> Inl e | Inr v6 \<Rightarrow>
      Inr (v6 = JStr (transfer_type new_transfer))))))))"

fun find_duplicate :: "'n python \<Rightarrow> 'n transfer_request \<Rightarrow> 'n json list \<Rightarrow> error + unit" where
  "find_duplicate E new_transfer [] = Inr ()"
| "find_duplicate E new_transfer (existing_transfer # rest) =
     (case same_transfer E existing_transfer new_transfer of
        Inl e \<Rightarrow> Inl e
      | Inr True \<Rightarrow> Inl (AccountManagementException ''Duplicated transfer in transfer list'')
      | Inr False \<Rightarrow> find_duplicate E new_transfer rest)"

text \<open>
  \<open>AccountManager.transfer_request\<close>: the validations, the request, the transfers store
  loaded, scanned for a duplicate, extended and written back; the transfer code is
  returned.
\<close>

definition transfer_request ::
  "'n python \<Rightarrow> date \<Rightarrow> 'n file_system \<Rightarrow> string \<Rightarrow> string \<Rightarrow> string \<Rightarrow> string \<Rightarrow> string \<Rightarrow> 'n json
     \<Rightarrow> (error + string) \<times> 'n file_system" where
  "transfer_request E today fs from_iban to_iban' concept transfer_type' date amount =
     (case validate_transfer E today from_iban to_iban' concept transfer_type' date amount of
        Inl e \<Rightarrow> (Inl e, fs)
      | Inr _ \<Rightarrow>
     (let new_transfer = \<lparr>transfer_from_iban = from_iban, transfer_to_iban = to_iban',
                          transfer_concept = concept, transfer_type = transfer_type',
                          transfer_date = date, transfer_amount = amount\<rparr> in
      case load_store (transfers_store fs) of
        Inl e \<Rightarrow> (Inl e, fs)
      | Inr transfer_list \<Rightarrow>
     (case py_iter transfer_list of
        Inl e \<Rightarrow> (Inl e, fs)
      | Inr existing \<Rightarrow>
     (case find_duplicate E new_transfer existing of
        Inl e \<Rightarrow> (Inl e, fs)
      | Inr _ \<Rightarrow>
     (case py_append transfer_list (transfer_to_json E new_transfer) of
        Inl e \<Rightarrow> (Inl e, fs)
      | Inr transfer_list' \<Rightarrow>
     (case save_store (transfers_store fs) transfer_list' of
        Inl e \<Rightarrow> (Inl e, fs)
      | Inr f \<Rightarrow> (Inr (transfer_code E new_transfer), fs\<lparr>transfers_store := f\<rparr>)))))))"

section \<open>Balances\<close>




section \<open>The statements about IBAN validation\<close>

text \<open>
  The format \<open>ES\<close> followed by 22 decimal digits; the number that the rearranged string
  denotes, which is the last 20 digits followed by 14 (\<open>E\<close>), 28 (\<open>S\<close>) and \<open>00\<close>; the
  control digits read as a number; and the control digits that the same formula
  computes for 20 digits of account number, written with two digits.
\<close>

definition es_22_digits :: "string \<Rightarrow> bool" where
  "es_22_digits s = (length s = 24 \<and> take 2 s = ''ES'' \<and> list_all is_digit (drop 2 s))"

definition rearranged_value :: "string \<Rightarrow> int" where
  "rearranged_value s = dec (drop 4 s) * 1000000 + 142800"

definition check_code :: "string \<Rightarrow> int" where
  "check_code s = dec (take 2 (drop 2 s))"

definition check_digits :: "string \<Rightarrow> string" where
  "check_digits body =
     (let c = nat (98 - (dec body * 1000000 + 142800) mod 97)
      in [char_of (ord CHR ''0'' + c div 10), char_of (ord CHR ''0'' + c mod 10)])"

definition generate_iban :: "string \<Rightarrow> string" where
  "generate_iban body = ''ES'' @ check_digits body @ body"

section \<open>The statements about deposits\<close>


text \<open>
  The canonical serialisation of a deposit as the specification writes it: a template
  in which each name in angle brackets stands for the text of a field.  \<open>fill\<close> replaces
  the names that have a value.
\<close>

function fill :: "(string \<times> string) list \<Rightarrow> string \<Rightarrow> string" where
  "fill vals [] = []"
| "fill vals (c # cs) =
     (if c = CHR ''<''
      then (case map_of vals (takeWhile (\<lambda>x. x \<noteq> CHR ''>'') cs) of
              Some v \<Rightarrow> v @ fill vals (tl (dropWhile (\<lambda>x. x \<noteq> CHR ''>'') cs))
            | None \<Rightarrow> c # fill vals cs)
      else c # fill vals cs)"
  by pat_completeness auto
termination
proof (relation "measure (\<lambda>(vals, s). length s)")
  fix vals :: "(string \<times> string) list" and c :: char and cs :: string and v :: string
  have "length (dropWhile (\<lambda>x. x \<noteq> CHR ''>'') cs) \<le> length cs"
    by (rule length_dropWhile_le)
  then show "((vals, tl (dropWhile (\<lambda>x. x \<noteq> CHR ''>'') cs)), (vals, c # cs)) \<in> measure (\<lambda>(vals, s). length s)"
    by simp
qed simp_all

definition canonical_string :: "'n python \<Rightarrow> 'n account_deposit \<Rightarrow> string" where
  "canonical_string E d =
     fill [(''ALG'', alg d), (''TYPE'', type d), (''IBAN'', to_iban d),
           (''AMOUNT'', str_of_num E (deposit_amount d)),
           (''TIMESTAMP'', str_of_num E (deposit_timestamp d))]
       ''{alg:<ALG>,typ:<TYPE>,iban:<IBAN>,amount:<AMOUNT>,deposit_date:<TIMESTAMP>}''"

section \<open>The statements about transfers\<close>

text \<open>The request that \<open>transfer_request\<close> builds from its arguments.\<close>

definition new_request ::
  "string \<Rightarrow> string \<Rightarrow> string \<Rightarrow> string \<Rightarrow> string \<Rightarrow> 'n json \<Rightarrow> 'n transfer_request" where
  "new_request from_iban to_iban' concept transfer_type' date amount =
     \<lparr>transfer_from_iban = from_iban, transfer_to_iban = to_iban',
      transfer_concept = concept, transfer_type = transfer_type',
      transfer_date = date, transfer_amount = amount\<rparr>"

text \<open>
  A stored transfer record is a JSON object with the six fields that define a duplicate.
  A record agrees with a request when the six comparisons of the scan hold: the five
  strings are the same and the amounts are equal under \<open>==\<close>.
\<close>

definition is_transfer_record :: "'n json \<Rightarrow> bool" where
  "is_transfer_record r =
     (case r of
        JObj items \<Rightarrow>
          list_all (\<lambda>k. map_of items k \<noteq> None)
            [''from_iban'', ''to_iban'', ''transfer_date'', ''transfer_amount'',
             ''transfer_concept'', ''transfer_type'']
      | _ \<Rightarrow> False)"

definition agrees :: "'n python \<Rightarrow> 'n json \<Rightarrow> 'n transfer_request \<Rightarrow> bool" where
  "agrees E r t =
     (py_getitem r ''from_iban'' = Inr (JStr (transfer_from_iban t))
      \<and> py_getitem r ''to_iban'' = Inr (JStr (transfer_to_iban t))
      \<and> py_getitem r ''transfer_date'' = Inr (JStr (transfer_date t))
      \<and> (case py_getitem r ''transfer_amount'' of
            Inr v \<Rightarrow> eq E v (transfer_amount t) | Inl _ \<Rightarrow> False)
      \<and> py_getitem r ''transfer_concept'' = Inr (JStr (transfer_concept t))
      \<and> py_getitem r ''transfer_type'' = Inr (JStr (transfer_type t)))"

text \<open>
  The records of a store that can be used: a list in a file, or no file yet in a
  directory that exists.
\<close>

definition stored_records :: "'n disk_file \<Rightarrow> 'n json list option" where
  "stored_records f =
     (case f of Absent \<Rightarrow> Some [] | Content (JArr rs) \<Rightarrow> Some rs | _ \<Rightarrow> None)"

section \<open>The statements about balances\<close>





section \<open>The statements about concepts\<close>

text \<open>
  Whitespace is what \<open>\s\<close> matches, alphabetic is a letter of \<open>a\<close> to \<open>z\<close> or \<open>A\<close> to \<open>Z\<close>.
  \<open>runs sep s\<close> cuts \<open>s\<close> at every separator character, so that two separators in a row
  enclose an empty run.  A string consists of whitespace-separated runs of alphabetic
  characters, at least two, when cutting it at the whitespace gives at least two runs,
  each non-empty and alphabetic.
\<close>

definition is_space :: "char \<Rightarrow> bool" where
  "is_space c = (ord c \<in> {9, 10, 11, 12, 13, 28, 29, 30, 31, 32, 133, 160})"

definition is_alpha :: "char \<Rightarrow> bool" where
  "is_alpha c = ((ord CHR ''a'' \<le> ord c \<and> ord c \<le> ord CHR ''z'')
                 \<or> (ord CHR ''A'' \<le> ord c \<and> ord c \<le> ord CHR ''Z''))"

fun runs :: "(char \<Rightarrow> bool) \<Rightarrow> string \<Rightarrow> string list" where
  "runs sep [] = [[]]"
| "runs sep (c # cs) =
     (if sep c then [] # runs sep cs
      else case runs sep cs of w # ws \<Rightarrow> (c # w) # ws | [] \<Rightarrow> [[c]])"

definition is_words :: "string \<Rightarrow> bool" where
  "is_words s =
     (2 \<le> length (runs is_space s)
      \<and> list_all (\<lambda>w. w \<noteq> [] \<and> list_all is_alpha w) (runs is_space s))"

section \<open>The statements about transfer dates\<close>




section \<open>An interpretation of the runtime for worked examples\<close>

text \<open>
  The parameters of the model are interpreted here so that concrete calls can be
  evaluated: numbers are the integers, on which the arithmetic of Python's numbers is
  exact in the range used; \<open>float\<close> reads a decimal numeral whose fraction is zero; \<open>str\<close>
  prints as Python prints a whole-valued float.  The digest and the transfer code are
  stand-ins that keep their argument visible, since the examples do not depend on them.
\<close>

definition whole_of_str :: "string \<Rightarrow> int option" where
  "whole_of_str s =
     (case py_split CHR ''.'' s of
        [a] \<Rightarrow> if a \<noteq> [] \<and> list_all is_digit a then Some (dec a) else None
      | [a, b] \<Rightarrow>
          if a \<noteq> [] \<and> list_all is_digit a \<and> list_all (\<lambda>c. c = CHR ''0'') b
          then Some (dec a) else None
      | _ \<Rightarrow> None)"

definition whole_numbers :: "int python" where
  "whole_numbers =
     \<lparr>float_of_str = whole_of_str,
      float_of_num = (\<lambda>x. x),
      num = (\<lambda>i. i),
      add = (\<lambda>x y. x + y),
      less = (\<lambda>x y. x < y),
      eq = (\<lambda>v w. v = w),
      str_of_num = (\<lambda>x. py_str_int x @ ''.0''),
      sha256_hexdigest = (\<lambda>s. ''sha256 of '' @ s),
      transfer_code = (\<lambda>t. ''code of '' @ transfer_from_iban t @ transfer_to_iban t @ transfer_concept t @ transfer_type t @ transfer_date t)\<rparr>"

text \<open>A file system with one deposit input file and no store yet.\<close>

definition deposit_fs :: "(string \<times> int json) list \<Rightarrow> int file_system" where
  "deposit_fs items =
     \<lparr>input_files = (\<lambda>p. if p = ''deposit.json'' then Content (JObj items) else Absent),
      transfers_store = Absent, deposits_store = Absent,
      transactions_store = Absent, balances_store = Absent\<rparr>"

text \<open>A file system with a given transfers store, and a request for the examples.\<close>

definition transfer_fs :: "int disk_file \<Rightarrow> int file_system" where
  "transfer_fs f =
     \<lparr>input_files = (\<lambda>p. Absent), transfers_store = f, deposits_store = Absent,
      transactions_store = Absent, balances_store = Absent\<rparr>"

definition rent :: "string \<Rightarrow> int transfer_request" where
  "rent concept =
     new_request ''ES9121000418450200051332'' ''ES8200000000000000000000'' concept
       ''ORDINARY'' ''03/11/2026'' (JNum 100)"


section \<open>The language of a pattern\<close>

text \<open>
  For the proofs, the set of strings that a pattern without anchors and lookahead
  consumes.  \<open>recognises f A\<close> says that the runs of \<open>f\<close> from a position are exactly
  the ways to split a word of \<open>A\<close> off the remaining input.
\<close>

definition conc :: "string set \<Rightarrow> string set \<Rightarrow> string set" where
  "conc A B = {u @ v | u v. u \<in> A \<and> v \<in> B}"

primrec lpow :: "string set \<Rightarrow> nat \<Rightarrow> string set" where
  "lpow A 0 = {[]}"
| "lpow A (Suc k) = conc A (lpow A k)"

definition lupto :: "string set \<Rightarrow> nat \<Rightarrow> string set" where
  "lupto A k = (\<Union>j\<le>k. lpow A j)"

definition lplus :: "string set \<Rightarrow> string set" where
  "lplus A = (\<Union>j. lpow A (Suc j))"

primrec lang :: "rx \<Rightarrow> string set" where
  "lang (Atom a) = {[c] | c. atom_matches a c}"
| "lang (Str w) = {w}"
| "lang Bol = {[]}"
| "lang Eol = {[]}"
| "lang (Seq r s) = conc (lang r) (lang s)"
| "lang (Alt r s) = lang r \<union> lang s"
| "lang (Plus r) = lplus (lang r)"
| "lang (Rep m n r) = conc (lpow (lang r) m) (lupto (lang r) (n - m))"
| "lang (Look r) = {[]}"

primrec plain :: "rx \<Rightarrow> bool" where
  "plain (Atom a) = True"
| "plain (Str w) = True"
| "plain Bol = False"
| "plain Eol = False"
| "plain (Seq r s) = (plain r \<and> plain s)"
| "plain (Alt r s) = (plain r \<and> plain s)"
| "plain (Plus r) = (plain r \<and> [] \<notin> lang r)"
| "plain (Rep m n r) = plain r"
| "plain (Look r) = False"

definition recognises :: "(pos \<Rightarrow> pos list) \<Rightarrow> string set \<Rightarrow> bool" where
  "recognises f A = (\<forall>i s. set (f (i, s)) = {(i + length w, t) | w t. s = w @ t \<and> w \<in> A})"
text \<open>The words and the separators of a concept, as languages.\<close>

definition word_lang :: "string set" where
  "word_lang = {w. w \<noteq> [] \<and> (\<forall>c\<in>set w. is_alpha c)}"

definition space_lang :: "string set" where
  "space_lang = {[c] | c. is_space c}"

section \<open>Patterns consume their language\<close>

lemma recognises_atom: "recognises (rx_run (Atom a)) {[c] | c. atom_matches a c}"
  unfolding recognises_def
proof (intro allI)
  fix i s
  show "set (rx_run (Atom a) (i, s)) = {(i + length w, t) | w t. s = w @ t \<and> w \<in> {[c] | c. atom_matches a c}}"
    by (cases s) auto
qed

lemma recognises_str: "recognises (rx_run (Str w)) {w}"
  unfolding recognises_def
proof (intro allI)
  fix i s
  show "set (rx_run (Str w) (i, s)) = {(i + length v, t) | v t. s = v @ t \<and> v \<in> {w}}"
    by (auto simp: append_eq_conv_conj) (metis append_take_drop_id)
qed

lemma recognises_seq:
  assumes f: "recognises f A" and g: "recognises g B"
  shows "recognises (\<lambda>p. concat (map g (f p))) (conc A B)"
  unfolding recognises_def
proof (intro allI set_eqI iffI)
  fix i s x
  assume "x \<in> set (concat (map g (f (i, s))))"
  then obtain p where p: "p \<in> set (f (i, s))" and x: "x \<in> set (g p)" by auto
  from p f obtain w t where w: "p = (i + length w, t)" "s = w @ t" "w \<in> A"
    unfolding recognises_def by blast
  from x g w(1) obtain v u where v: "x = (i + length w + length v, u)" "t = v @ u" "v \<in> B"
    unfolding recognises_def by blast
  have "w @ v \<in> conc A B" using w(3) v(3) by (auto simp: conc_def)
  moreover have "x = (i + length (w @ v), u)" "s = (w @ v) @ u" using v w by auto
  ultimately show "x \<in> {(i + length w, t) | w t. s = w @ t \<and> w \<in> conc A B}" by blast
next
  fix i s x
  assume "x \<in> {(i + length w, t) | w t. s = w @ t \<and> w \<in> conc A B}"
  then obtain w v t where x: "x = (i + length (w @ v), t)" "s = (w @ v) @ t" "w \<in> A" "v \<in> B"
    by (auto simp: conc_def)
  have "(i + length w, v @ t) \<in> set (f (i, s))"
    using f x(2,3) unfolding recognises_def by auto
  moreover have "x \<in> set (g (i + length w, v @ t))"
    using g x(1,4) unfolding recognises_def by auto
  ultimately show "x \<in> set (concat (map g (f (i, s))))" by auto
qed

lemma recognises_alt:
  assumes "recognises f A" "recognises g B"
  shows "recognises (\<lambda>p. f p @ g p) (A \<union> B)"
  using assms unfolding recognises_def by auto

lemma recognises_eps: "recognises (\<lambda>p. [p]) {[]}"
  unfolding recognises_def by auto

lemma recognises_exact:
  assumes "recognises f A"
  shows "recognises (rep_exact f k) (lpow A k)"
proof (induction k)
  case 0
  have "rep_exact f 0 = (\<lambda>p. [p])" by (rule ext) simp
  then show ?case using recognises_eps by simp
next
  case (Suc k)
  have "rep_exact f (Suc k) = (\<lambda>p. concat (map (rep_exact f k) (f p)))" by (rule ext) simp
  then show ?case using recognises_seq [OF assms Suc] by simp
qed

lemma lupto_Suc: "lupto A (Suc k) = {[]} \<union> conc A (lupto A k)"
proof (intro set_eqI iffI)
  fix w assume "w \<in> lupto A (Suc k)"
  then obtain j where j: "j \<le> Suc k" "w \<in> lpow A j" by (auto simp: lupto_def)
  show "w \<in> {[]} \<union> conc A (lupto A k)"
  proof (cases j)
    case 0
    with j show ?thesis by simp
  next
    case (Suc j')
    with j have "j' \<le> k" "w \<in> conc A (lpow A j')" by simp_all
    then show ?thesis unfolding lupto_def conc_def by blast
  qed
next
  fix w assume "w \<in> {[]} \<union> conc A (lupto A k)"
  then consider "w = []" | "w \<in> conc A (lupto A k)" by blast
  then show "w \<in> lupto A (Suc k)"
  proof cases
    case 1
    have "w \<in> lpow A 0" using 1 by simp
    then show ?thesis unfolding lupto_def by blast
  next
    case 2
    then obtain u v j where "w = u @ v" "u \<in> A" "j \<le> k" "v \<in> lpow A j"
      unfolding lupto_def conc_def by blast
    then have "w \<in> lpow A (Suc j)" "Suc j \<le> Suc k" by (auto simp: conc_def)
    then show ?thesis unfolding lupto_def by blast
  qed
qed

lemma recognises_upto:
  assumes "recognises f A"
  shows "recognises (rep_upto f k) (lupto A k)"
proof (induction k)
  case 0
  have "rep_upto f 0 = (\<lambda>p. [p])" by (rule ext) simp
  then show ?case using recognises_eps by (simp add: lupto_def)
next
  case (Suc k)
  have "recognises (\<lambda>p. [p] @ concat (map (rep_upto f k) (f p))) ({[]} \<union> conc A (lupto A k))"
    by (rule recognises_alt [OF recognises_eps recognises_seq [OF assms Suc]])
  moreover have "rep_upto f (Suc k) = (\<lambda>p. [p] @ concat (map (rep_upto f k) (f p)))"
    by (rule ext) simp
  ultimately show ?case by (simp add: lupto_Suc)
qed

lemma lpow_length: "[] \<notin> A \<Longrightarrow> w \<in> lpow A k \<Longrightarrow> k \<le> length w"
proof (induction k arbitrary: w)
  case 0
  then show ?case by simp
next
  case (Suc k)
  then obtain u v where "w = u @ v" "u \<in> A" "v \<in> lpow A k" by (auto simp: conc_def)
  with Suc show ?case by (cases u) fastforce+
qed

lemma recognises_plus:
  assumes f: "recognises f A" and ne: "[] \<notin> A"
  shows "recognises (\<lambda>p. concat (map (rep_upto f (length (snd p))) (f p))) (lplus A)"
  unfolding recognises_def
proof (intro allI)
  fix i :: nat and s :: string
  let ?n = "length s"
  have "set (concat (map (rep_upto f ?n) (f (i, s))))
          = {(i + length w, t) | w t. s = w @ t \<and> w \<in> conc A (lupto A ?n)}"
    using recognises_seq [OF f recognises_upto [OF f, of ?n]] unfolding recognises_def by simp
  also have "\<dots> = {(i + length w, t) | w t. s = w @ t \<and> w \<in> lplus A}"
  proof -
    have "w \<in> conc A (lupto A ?n) \<longleftrightarrow> w \<in> lplus A" if "s = w @ t" for w t
    proof
      assume "w \<in> conc A (lupto A ?n)"
      then show "w \<in> lplus A" by (auto simp: conc_def lupto_def lplus_def)
    next
      assume "w \<in> lplus A"
      then obtain j where j: "w \<in> lpow A (Suc j)" by (auto simp: lplus_def)
      then have "Suc j \<le> length w" using lpow_length [OF ne] by blast
      then have "j \<le> ?n" using that by simp
      then show "w \<in> conc A (lupto A ?n)" using j by (auto simp: conc_def lupto_def)
    qed
    then show ?thesis by blast
  qed
  finally show "set (concat (map (rep_upto f (length (snd (i, s)))) (f (i, s))))
          = {(i + length w, t) | w t. s = w @ t \<and> w \<in> lplus A}" by simp
qed

lemma rx_run_lang: "plain r \<Longrightarrow> recognises (rx_run r) (lang r)"
proof (induction r)
  case (Atom a)
  show ?case unfolding lang.simps by (rule recognises_atom)
next
  case (Str w)
  show ?case unfolding lang.simps by (rule recognises_str)
next
  case (Seq r s)
  have "rx_run (Seq r s) = (\<lambda>p. concat (map (rx_run s) (rx_run r p)))" by (rule ext) simp
  then show ?case using Seq recognises_seq by simp
next
  case (Alt r s)
  have "rx_run (Alt r s) = (\<lambda>p. rx_run r p @ rx_run s p)" by (rule ext) simp
  then show ?case using Alt recognises_alt by simp
next
  case (Plus r)
  have "rx_run (Plus r) = (\<lambda>p. concat (map (rep_upto (rx_run r) (length (snd p))) (rx_run r p)))"
    by (rule ext) simp
  then show ?case using Plus recognises_plus by simp
next
  case (Rep m n r)
  have "rx_run (Rep m n r) = (\<lambda>p. concat (map (rep_upto (rx_run r) (n - m)) (rep_exact (rx_run r) m p)))"
    by (rule ext) simp
  then show ?case using Rep recognises_seq recognises_exact recognises_upto by simp
qed simp_all

lemma fullmatch_plain: "plain r \<Longrightarrow> fullmatch r s \<longleftrightarrow> s \<in> lang r"
  using rx_run_lang [of r] unfolding recognises_def fullmatch_def list_ex_iff by auto

section \<open>Anchors and concatenation\<close>

lemma fullmatch_Eol: "fullmatch (Seq r Eol) s = fullmatch r s"
proof -
  have "set (concat (map (rx_run Eol) ps)) \<inter> {p. snd p = []} = set ps \<inter> {p. snd p = []}" for ps
    by (induction ps) auto
  then show ?thesis
    unfolding fullmatch_def list_ex_iff rx_run.simps by blast
qed






section \<open>IBAN validation: properties\<close>

lemma fullmatch_Bol: "fullmatch (Seq Bol r) s = fullmatch r s"
  by (simp add: fullmatch_def)

lemma conc_eps: "conc A {[]} = A"
  by (auto simp: conc_def)

lemma lupto_0: "lupto A 0 = {[]}"
  by (simp add: lupto_def)

lemma lpow_atoms: "lpow {[c] | c. P c} n = {w. length w = n \<and> (\<forall>c\<in>set w. P c)}"
proof (induction n)
  case 0
  show ?case by auto
next
  case (Suc n)
  show ?case
  proof (intro set_eqI iffI)
    fix w assume "w \<in> lpow {[c] | c. P c} (Suc n)"
    then show "w \<in> {w. length w = Suc n \<and> (\<forall>c\<in>set w. P c)}"
      using Suc by (auto simp: conc_def)
  next
    fix w assume "w \<in> {w. length w = Suc n \<and> (\<forall>c\<in>set w. P c)}"
    then obtain c v where "w = c # v" "P c" "length v = n" "\<forall>c\<in>set v. P c"
      by (cases w) auto
    then have "[c] \<in> {[c] | c. P c}" "v \<in> lpow {[c] | c. P c} n" "w = [c] @ v"
      using Suc by auto
    then show "w \<in> lpow {[c] | c. P c} (Suc n)"
      unfolding lpow.simps conc_def by blast
  qed
qed

lemma lang_Rep_atom:
  "lang (Rep n n (Atom a)) = {w. length w = n \<and> (\<forall>c\<in>set w. atom_matches a c)}"
  by (simp add: lupto_0 conc_eps lpow_atoms)

lemma digit_class: "atom_matches (Cls [(CHR ''0'', CHR ''9'')]) c = is_digit c"
  by (simp add: is_digit_def)

lemma iban_pattern_iff: "fullmatch iban_pattern s \<longleftrightarrow> es_22_digits s"
proof -
  let ?r = "Seq (Str ''ES'') (Rep 22 22 (Atom (Cls [(CHR ''0'', CHR ''9'')])))"
  have "fullmatch iban_pattern s \<longleftrightarrow> s \<in> lang ?r"
    unfolding iban_pattern_def fullmatch_Bol by (rule fullmatch_plain) simp
  also have "lang ?r = {''ES'' @ b | b. length b = 22 \<and> (\<forall>c\<in>set b. is_digit c)}"
    unfolding lang.simps(5) lang_Rep_atom digit_class by (auto simp: conc_def)
  also have "s \<in> \<dots> \<longleftrightarrow> es_22_digits s"
  proof
    assume "s \<in> {''ES'' @ b | b. length b = 22 \<and> (\<forall>c\<in>set b. is_digit c)}"
    then show "es_22_digits s" by (auto simp: es_22_digits_def list_all_iff)
  next
    assume "es_22_digits s"
    then have "s = ''ES'' @ drop 2 s" "length (drop 2 s) = 22" "\<forall>c\<in>set (drop 2 s). is_digit c"
      unfolding es_22_digits_def list_all_iff by (metis append_take_drop_id, simp, blast)
    then show "s \<in> {''ES'' @ b | b. length b = 22 \<and> (\<forall>c\<in>set b. is_digit c)}" by blast
  qed
  finally show ?thesis .
qed

lemma dec_snoc: "dec (u @ [c]) = 10 * dec u + digit_val c"
  by (simp add: dec_def)

lemma dec_append: "dec (u @ v) = dec u * 10 ^ length v + dec v"
proof (induction v rule: rev_induct)
  case Nil
  show ?case by (simp add: dec_def)
next
  case (snoc c v)
  have "dec (u @ v @ [c]) = 10 * dec (u @ v) + digit_val c"
    using dec_snoc [of "u @ v" c] by simp
  then show ?case using snoc by (simp add: dec_snoc algebra_simps)
qed

lemma subst_letter_digit: "is_digit c \<Longrightarrow> subst_letter c = [c]"
  by (simp add: subst_letter_def is_digit_def ord_def)

lemma subst_digits: "list_all is_digit b \<Longrightarrow> concat (map subst_letter b) = b"
  by (induction b) (simp_all add: subst_letter_digit)

lemma subst_ES00: "concat (map subst_letter ''ES00'') = ''142800''"
  by code_simp

lemma dec_142800: "dec ''142800'' = 142800"
  by (simp add: dec_def digit_val_def ord_def)

lemma validate_iban_format:
  assumes "es_22_digits s"
  shows "validate_iban s =
           (if check_code s = 98 - rearranged_value s mod 97 then Inr s
            else Inl (AccountManagementException ''Invalid IBAN control digit''))"
proof -
  let ?body = "drop 4 s" and ?cc = "take 2 (drop 2 s)"
  from assms have len: "length s = 24" and es: "take 2 s = ''ES''"
    and dig: "list_all is_digit (drop 2 s)" by (simp_all add: es_22_digits_def)
  have d2: "drop 2 s = ?cc @ ?body"
    by (metis append_take_drop_id drop_drop numeral_Bit0 add.commute) 
  have cc: "list_all is_digit ?cc" "?cc \<noteq> []" and body: "list_all is_digit ?body"
    using dig len d2 by (metis list_all_append, auto) (metis list_all_append)
  have m: "fullmatch iban_pattern s" using assms iban_pattern_iff by blast
  have r: "drop 4 (take 2 s @ ''00'' @ drop 4 s) @ take 4 (take 2 s @ ''00'' @ drop 4 s)
             = ?body @ ''ES00''"
    using len es by simp
  have s3: "concat (map subst_letter (?body @ ''ES00'')) = ?body @ ''142800''"
    using subst_digits [OF body] subst_ES00 by simp
  have dg: "list_all is_digit (?body @ ''142800'')"
    using body by (simp add: is_digit_def ord_def)
  have v: "py_int (?body @ ''142800'') = Inr (rearranged_value s)"
    using dg dec_append [of ?body "''142800''"] dec_142800
    by (simp add: py_int_def rearranged_value_def)
  have c: "py_int ?cc = Inr (check_code s)"
    using cc by (simp add: py_int_def check_code_def)
  show ?thesis
    unfolding validate_iban_def Let_def r s3 v c using m by auto
qed


lemma ord_char_of_digit: "a < 10 \<Longrightarrow> ord (char_of (ord CHR ''0'' + a)) = 48 + a"
  by (simp add: ord_def)

lemma digit_char_of: "a < 10 \<Longrightarrow> is_digit (char_of (ord CHR ''0'' + a))"
  using ord_char_of_digit [of a] by (simp add: is_digit_def) (simp add: ord_def)

lemma digit_val_char_of: "a < 10 \<Longrightarrow> digit_val (char_of (ord CHR ''0'' + a)) = int a"
  using ord_char_of_digit [of a] by (simp add: digit_val_def) (simp add: ord_def)

lemma check_digits_props:
  "length (check_digits body) = 2 \<and> list_all is_digit (check_digits body)
   \<and> dec (check_digits body) = 98 - (dec body * 1000000 + 142800) mod 97"
proof -
  define x where "x = (dec body * 1000000 + 142800) mod 97"
  define c where "c = nat (98 - x)"
  have x: "0 \<le> x" "x < 97" by (simp_all add: x_def)
  then have c: "c < 100" "int c = 98 - x" by (simp_all add: c_def)
  have cd: "check_digits body = [char_of (ord CHR ''0'' + c div 10), char_of (ord CHR ''0'' + c mod 10)]"
    by (simp add: check_digits_def c_def x_def Let_def)
  have a: "c div 10 < 10" "c mod 10 < 10" using c by simp_all
  have "dec (check_digits body) = 10 * int (c div 10) + int (c mod 10)"
    unfolding cd dec_def using digit_val_char_of [OF a(1)] digit_val_char_of [OF a(2)] by simp
  also have "\<dots> = int c" by (simp add: zdiv_int zmod_int)
  finally have "dec (check_digits body) = 98 - x" using c by simp
  moreover have "list_all is_digit (check_digits body)"
    unfolding cd using digit_char_of [OF a(1)] digit_char_of [OF a(2)] by simp
  ultimately show ?thesis by (simp add: cd x_def)
qed

lemma generate_iban_valid:
  assumes "length body = 20" "list_all is_digit body"
  shows "validate_iban (generate_iban body) = Inr (generate_iban body)"
proof -
  let ?s = "generate_iban body"
  from check_digits_props [of body]
  have l: "length (check_digits body) = 2" and d: "list_all is_digit (check_digits body)"
    and v: "dec (check_digits body) = 98 - (dec body * 1000000 + 142800) mod 97" by simp_all
  have es: "es_22_digits ?s"
    using assms l d by (simp add: es_22_digits_def generate_iban_def)
  have "check_code ?s = dec (check_digits body)"
    using l by (simp add: check_code_def generate_iban_def)
  moreover have "rearranged_value ?s = dec body * 1000000 + 142800"
    using l by (simp add: rearranged_value_def generate_iban_def)
  ultimately show ?thesis using validate_iban_format [OF es] v by simp
qed

text \<open>
  Claim C1.  \<open>validate_iban\<close> fails with the message of an invalid format exactly when
  the input is not \<open>ES\<close> followed by 22 digits.  On an input of that format it returns
  the input unchanged when 98 minus the remainder modulo 97 of the rearranged number
  equals the two control digits, and fails with the message of an invalid control digit
  otherwise.  An IBAN whose control digits were computed by that formula from any 20
  digits is therefore accepted.
\<close>

theorem validate_iban_spec:
  "(validate_iban s = Inl (AccountManagementException ''Invalid IBAN format'') \<longleftrightarrow> \<not> es_22_digits s)
   \<and> (es_22_digits s \<longrightarrow>
        validate_iban s =
          (if 98 - rearranged_value s mod 97 = check_code s then Inr s
           else Inl (AccountManagementException ''Invalid IBAN control digit'')))
   \<and> (length body = 20 \<and> list_all is_digit body \<longrightarrow>
        validate_iban (generate_iban body) = Inr (generate_iban body))"
proof (intro conjI impI)
  show "validate_iban s = Inl (AccountManagementException ''Invalid IBAN format'') \<longleftrightarrow> \<not> es_22_digits s"
  proof (cases "es_22_digits s")
    case True
    then show ?thesis using validate_iban_format [OF True] by simp
  next
    case False
    then have "\<not> fullmatch iban_pattern s" using iban_pattern_iff by blast
    then show ?thesis using False by (simp add: validate_iban_def)
  qed
next
  assume "es_22_digits s"
  then show "validate_iban s =
          (if 98 - rearranged_value s mod 97 = check_code s then Inr s
           else Inl (AccountManagementException ''Invalid IBAN control digit''))"
    using validate_iban_format by auto
next
  assume "length body = 20 \<and> list_all is_digit body"
  then show "validate_iban (generate_iban body) = Inr (generate_iban body)"
    using generate_iban_valid by blast
qed

text \<open>The account \<open>ES91 2100 0418 4502 0005 1332\<close> as an instance.\<close>

theorem validate_iban_spec_witness:
  "es_22_digits ''ES9121000418450200051332''
   \<and> validate_iban ''ES9121000418450200051332'' = Inr ''ES9121000418450200051332''
   \<and> length ''21000418450200051332'' = 20 \<and> list_all is_digit ''21000418450200051332''
   \<and> generate_iban ''21000418450200051332'' = ''ES9121000418450200051332''
   \<and> validate_iban (generate_iban ''21000418450200051332'') = Inr ''ES9121000418450200051332''"
proof -
  have a: "es_22_digits ''ES9121000418450200051332''" by code_simp
  have b: "98 - rearranged_value ''ES9121000418450200051332'' mod 97 = check_code ''ES9121000418450200051332''"
    by code_simp
  have c: "length ''21000418450200051332'' = 20 \<and> list_all is_digit ''21000418450200051332''"
    by code_simp
  have d: "generate_iban ''21000418450200051332'' = ''ES9121000418450200051332''" by code_simp
  show ?thesis
    using validate_iban_spec [of "''ES9121000418450200051332''" "''21000418450200051332''"] a b c d
    by simp
qed

section \<open>Deposits: properties\<close>

lemma canonical_string_eq: "canonical_string E d = get_signature_string E d"
  unfolding canonical_string_def get_signature_string_def by simp












lemma deposit_success:
  assumes "deposit_into_account E now fs input_file = (Inr signature, fs')"
  shows "\<exists>iban amount l l' f.
           load_store (deposits_store fs) = Inr l
           \<and> py_append l (to_json E (AccountDeposit now iban amount)) = Inr l'
           \<and> save_store (deposits_store fs) l' = Inr f
           \<and> signature = deposit_signature E (AccountDeposit now iban amount)
           \<and> fs' = fs\<lparr>deposits_store := f\<rparr>"
  using assms
  by (auto simp: deposit_into_account_def Let_def split: loaded.splits sum.splits prod.splits)

lemma py_append_Inr: "py_append l x = Inr l' \<Longrightarrow> \<exists>xs. l = JArr xs \<and> l' = JArr (xs @ [x])"
  by (cases l) (simp_all add: py_append_def)

lemma save_store_Inr: "save_store f v = Inr f' \<Longrightarrow> f' = Content v"
  by (cases f) (simp_all add: save_store_def json_dump_def)

lemma to_json_signature:
  "py_getitem (to_json E d) ''deposit_signature'' = Inr (JStr (deposit_signature E d))"
  by (simp add: to_json_def py_getitem_def)

text \<open>
  Claim C10.  When \<open>deposit_into_account\<close> succeeds, the deposits store holds what it
  held before followed by one new record, whose \<open>deposit_signature\<close> entry is the string that the
  call returns.
\<close>

theorem deposit_returns_stored_signature:
  assumes "deposit_into_account E now fs input_file = (Inr signature, fs')"
  shows "\<exists>records record.
           load_store (deposits_store fs) = Inr (JArr records)
           \<and> deposits_store fs' = Content (JArr (records @ [record]))
           \<and> py_getitem record ''deposit_signature'' = Inr (JStr signature)"
proof -
  from deposit_success [OF assms] obtain iban amount l l' f where
    l: "load_store (deposits_store fs) = Inr l"
    and a: "py_append l (to_json E (AccountDeposit now iban amount)) = Inr l'"
    and w: "save_store (deposits_store fs) l' = Inr f"
    and s: "signature = deposit_signature E (AccountDeposit now iban amount)"
    and fs': "fs' = fs\<lparr>deposits_store := f\<rparr>" by blast
  let ?stored = "to_json E (AccountDeposit now iban amount)"
  from py_append_Inr [OF a] obtain records where
    r: "l = JArr records" "l' = JArr (records @ [?stored])" by blast
  have "deposits_store fs' = Content (JArr (records @ [?stored]))"
    using save_store_Inr [OF w] r fs' by simp
  moreover have "py_getitem ?stored ''deposit_signature'' = Inr (JStr signature)"
    using to_json_signature s by simp
  ultimately show ?thesis using l r by blast
qed

text \<open>
  Claim C5.  The signature of a deposit is the SHA-256 hex digest of the canonical string
  built from its fields, with the amount and the time stamp printed by \<open>str\<close>; two
  deposits with the same five fields have the same signature.
\<close>

theorem deposit_signature_canonical:
  "deposit_signature E d = sha256_hexdigest E (canonical_string E d)
   \<and> (alg d = alg d' \<and> type d = type d' \<and> to_iban d = to_iban d'
        \<and> deposit_amount d = deposit_amount d' \<and> deposit_timestamp d = deposit_timestamp d'
      \<longrightarrow> deposit_signature E d = deposit_signature E d')"
proof (rule conjI)
  have "canonical_string E d = get_signature_string E d" by (rule canonical_string_eq)
  then show "deposit_signature E d = sha256_hexdigest E (canonical_string E d)"
    by (simp add: deposit_signature_def)
next
  show "alg d = alg d' \<and> type d = type d' \<and> to_iban d = to_iban d'
        \<and> deposit_amount d = deposit_amount d' \<and> deposit_timestamp d = deposit_timestamp d'
      \<longrightarrow> deposit_signature E d = deposit_signature E d'"
  proof
    assume "alg d = alg d' \<and> type d = type d' \<and> to_iban d = to_iban d'
        \<and> deposit_amount d = deposit_amount d' \<and> deposit_timestamp d = deposit_timestamp d'"
    then have "get_signature_string E d = get_signature_string E d'"
      by (simp add: get_signature_string_def)
    then show "deposit_signature E d = deposit_signature E d'"
      by (simp add: deposit_signature_def)
  qed
qed




theorem deposit_returns_stored_signature_witness:
  "fst (deposit_into_account whole_numbers 17
          (deposit_fs [(''IBAN'', JStr ''ES9121000418450200051332''),
                       (''AMOUNT'', JStr ''EUR 1000.00'')]) ''deposit.json'')
     = Inr (deposit_signature whole_numbers (AccountDeposit 17 ''ES9121000418450200051332'' 1000))
   \<and> (\<exists>record.
         deposits_store (snd (deposit_into_account whole_numbers 17
           (deposit_fs [(''IBAN'', JStr ''ES9121000418450200051332''),
                        (''AMOUNT'', JStr ''EUR 1000.00'')]) ''deposit.json''))
           = Content (JArr [record])
         \<and> py_getitem record ''deposit_signature''
           = Inr (JStr (deposit_signature whole_numbers
                          (AccountDeposit 17 ''ES9121000418450200051332'' 1000))))"
proof -
  let ?fs = "deposit_fs [(''IBAN'', JStr ''ES9121000418450200051332''),
                         (''AMOUNT'', JStr ''EUR 1000.00'')]"
  let ?run = "deposit_into_account whole_numbers 17 ?fs ''deposit.json''"
  let ?sig = "deposit_signature whole_numbers (AccountDeposit 17 ''ES9121000418450200051332'' 1000)"
  have r: "fst ?run = Inr ?sig" by code_simp
  then have h: "?run = (Inr ?sig, snd ?run)" by (metis prod.collapse)
  have l: "load_store (deposits_store ?fs) = Inr (JArr [])"
    by (simp add: deposit_fs_def load_store_def json_load_def)
  from deposit_returns_stored_signature [OF h] l r show ?thesis by auto
qed

theorem deposit_signature_canonical_witness:
  "alg (AccountDeposit 17 ''ES9121000418450200051332'' (1000 :: int)) = ''SHA-256''
   \<and> type (AccountDeposit 17 ''ES9121000418450200051332'' (1000 :: int)) = ''DEPOSIT''
   \<and> to_iban (AccountDeposit 17 ''ES9121000418450200051332'' (1000 :: int)) = ''ES9121000418450200051332''
   \<and> deposit_amount (AccountDeposit 17 ''ES9121000418450200051332'' (1000 :: int)) = 1000
   \<and> deposit_timestamp (AccountDeposit 17 ''ES9121000418450200051332'' (1000 :: int)) = 17
   \<and> deposit_signature whole_numbers (AccountDeposit 17 ''ES9121000418450200051332'' 1000)
       = deposit_signature whole_numbers
           \<lparr>alg = ''SHA-256'', type = ''DEPOSIT'', to_iban = ''ES9121000418450200051332'',
            deposit_amount = 1000, deposit_timestamp = 17\<rparr>"
  using deposit_signature_canonical
    [of whole_numbers "AccountDeposit 17 ''ES9121000418450200051332'' 1000"
        "\<lparr>alg = ''SHA-256'', type = ''DEPOSIT'', to_iban = ''ES9121000418450200051332'',
          deposit_amount = 1000, deposit_timestamp = 17\<rparr>"]
  by (simp add: AccountDeposit_def)

section \<open>Transfers: properties\<close>



text \<open>
  The amount check in terms of the runtime's own operations: the outcome is decided by
  \<open>float\<close>, by the digits that follow the point in \<open>str\<close> of the number, and by the two
  comparisons.  Which inputs these operations accept, and what they print, is binary
  floating point and stays a parameter.
\<close>

lemma py_float_errors: "py_float E v = Inl e \<Longrightarrow> e = ValueError \<or> e = TypeError"
  by (cases v) (auto simp: py_float_def split: option.splits)

lemma validate_transfer_amount_decision:
  "validate_transfer_amount E amount = Inl (AccountManagementException ''Invalid transfer amount'')
   \<longleftrightarrow> py_float E amount = Inl ValueError
       \<or> (\<exists>x. py_float E amount = Inr x
              \<and> ((CHR ''.'' \<in> set (str_of_num E x)
                    \<and> 2 < length (py_split CHR ''.'' (str_of_num E x) ! 1))
                  \<or> less E x (num E 10) \<or> less E (num E 10000) x))"
proof (cases "py_float E amount")
  case (Inl e)
  with py_float_errors [of E amount e] show ?thesis
    by (auto simp: validate_transfer_amount_def)
next
  case (Inr x)
  then show ?thesis by (auto simp: validate_transfer_amount_def Let_def)
qed

lemma validate_transfer_amount_accepts:
  "validate_transfer_amount E amount = Inr ()
   \<longleftrightarrow> (\<exists>x. py_float E amount = Inr x
              \<and> \<not> (CHR ''.'' \<in> set (str_of_num E x)
                    \<and> 2 < length (py_split CHR ''.'' (str_of_num E x) ! 1))
              \<and> \<not> less E x (num E 10) \<and> \<not> less E (num E 10000) x)"
proof (cases "py_float E amount")
  case (Inl e)
  with py_float_errors [of E amount e] show ?thesis
    by (auto simp: validate_transfer_amount_def)
next
  case (Inr x)
  then show ?thesis by (auto simp: validate_transfer_amount_def Let_def)
qed

lemma same_transfer_record:
  assumes "is_transfer_record r"
  shows "same_transfer E r t = Inr (agrees E r t)"
proof -
  from assms obtain items where r: "r = JObj items"
    by (cases r) (simp_all add: is_transfer_record_def)
  from assms r obtain v1 v2 v3 v4 v5 v6 where
    "map_of items ''from_iban'' = Some v1" "map_of items ''to_iban'' = Some v2"
    "map_of items ''transfer_date'' = Some v3" "map_of items ''transfer_amount'' = Some v4"
    "map_of items ''transfer_concept'' = Some v5" "map_of items ''transfer_type'' = Some v6"
    by (auto simp: is_transfer_record_def)
  then show ?thesis
    unfolding r same_transfer_def agrees_def py_getitem_def by simp
qed

lemma find_duplicate_records:
  assumes "\<forall>r\<in>set rs. is_transfer_record r"
  shows "find_duplicate E t rs =
           (if \<exists>r\<in>set rs. agrees E r t
            then Inl (AccountManagementException ''Duplicated transfer in transfer list'')
            else Inr ())"
  using assms
proof (induction rs)
  case Nil
  show ?case by simp
next
  case (Cons r rs)
  from Cons.prems have "is_transfer_record r" by simp
  then have s: "same_transfer E r t = Inr (agrees E r t)" by (rule same_transfer_record)
  from Cons.prems have "\<forall>r\<in>set rs. is_transfer_record r" by simp
  then have "find_duplicate E t rs =
           (if \<exists>r\<in>set rs. agrees E r t
            then Inl (AccountManagementException ''Duplicated transfer in transfer list'')
            else Inr ())" by (rule Cons.IH)
  with s show ?case by (cases "agrees E r t") simp_all
qed

lemma stored_records_load:
  assumes "stored_records f = Some rs"
  shows "load_store f = Inr (JArr rs) \<and> save_store f v = Inr (Content v)"
  using assms
  by (auto simp: stored_records_def load_store_def save_store_def json_load_def json_dump_def
      split: disk_file.splits json.splits)

lemma transfer_scan:
  assumes "validate_transfer E today from_iban to_iban' concept transfer_type' date amount = Inr ()"
    and "stored_records (transfers_store fs) = Some rs"
    and "\<forall>r\<in>set rs. is_transfer_record r"
  shows "((\<exists>r\<in>set rs. agrees E r (new_request from_iban to_iban' concept transfer_type' date amount))
          \<longrightarrow> transfer_request E today fs from_iban to_iban' concept transfer_type' date amount
              = (Inl (AccountManagementException ''Duplicated transfer in transfer list''), fs))
       \<and> ((\<forall>r\<in>set rs. \<not> agrees E r (new_request from_iban to_iban' concept transfer_type' date amount))
          \<longrightarrow> transfer_request E today fs from_iban to_iban' concept transfer_type' date amount
              = (Inr (transfer_code E (new_request from_iban to_iban' concept transfer_type' date amount)),
                 fs\<lparr>transfers_store := Content (JArr (rs @
                   [transfer_to_json E (new_request from_iban to_iban' concept transfer_type' date amount)]))\<rparr>))"
proof -
  let ?new = "new_request from_iban to_iban' concept transfer_type' date amount"
  have l: "load_store (transfers_store fs) = Inr (JArr rs)"
    and w: "\<And>v. save_store (transfers_store fs) v = Inr (Content v)"
    using stored_records_load [OF assms(2)] by simp_all
  have d: "find_duplicate E ?new rs =
           (if \<exists>r\<in>set rs. agrees E r ?new
            then Inl (AccountManagementException ''Duplicated transfer in transfer list'')
            else Inr ())"
    by (rule find_duplicate_records [OF assms(3)])
  show ?thesis
    unfolding transfer_request_def Let_def new_request_def [symmetric]
    using assms(1) l w d by (simp add: py_iter_def py_append_def)
qed

lemma transfer_request_error:
  assumes "transfer_request E today fs from_iban to_iban' concept transfer_type' date amount = (Inl err, fs')"
  shows "fs' = fs"
  using assms
  by (auto simp: transfer_request_def Let_def split: sum.splits)

lemma transfer_request_changed:
  assumes "snd (transfer_request E today fs from_iban to_iban' concept transfer_type' date amount) \<noteq> fs"
  shows "validate_transfer E today from_iban to_iban' concept transfer_type' date amount = Inr ()
         \<and> (\<exists>l xs. load_store (transfers_store fs) = Inr l \<and> py_iter l = Inr xs
               \<and> find_duplicate E (new_request from_iban to_iban' concept transfer_type' date amount) xs = Inr ())"
  using assms
  by (auto simp: transfer_request_def Let_def new_request_def split: sum.splits)


lemma transfer_to_json_record: "is_transfer_record (transfer_to_json E t)"
  by (simp add: is_transfer_record_def transfer_to_json_def)

lemma transfer_to_json_agrees:
  "agrees E (transfer_to_json E t) t' \<longleftrightarrow>
     transfer_from_iban t = transfer_from_iban t' \<and> transfer_to_iban t = transfer_to_iban t'
     \<and> transfer_date t = transfer_date t' \<and> eq E (transfer_amount t) (transfer_amount t')
     \<and> transfer_concept t = transfer_concept t' \<and> transfer_type t = transfer_type t'"
  by (simp add: agrees_def transfer_to_json_def py_getitem_def)

text \<open>
  Two identical submissions in a row: the second is a duplicate of the record the first
  stored, provided the amount equals itself under \<open>==\<close>.
\<close>

lemma transfer_twice:
  assumes v: "validate_transfer E today from_iban to_iban' concept transfer_type' date amount = Inr ()"
    and s: "stored_records (transfers_store fs) = Some rs"
    and w: "\<forall>r\<in>set rs. is_transfer_record r"
    and n: "\<forall>r\<in>set rs. \<not> agrees E r (new_request from_iban to_iban' concept transfer_type' date amount)"
    and e: "eq E amount amount"
  shows "transfer_request E today
           (snd (transfer_request E today fs from_iban to_iban' concept transfer_type' date amount))
           from_iban to_iban' concept transfer_type' date amount
         = (Inl (AccountManagementException ''Duplicated transfer in transfer list''),
            snd (transfer_request E today fs from_iban to_iban' concept transfer_type' date amount))"
proof -
  let ?new = "new_request from_iban to_iban' concept transfer_type' date amount"
  let ?fs1 = "fs\<lparr>transfers_store := Content (JArr (rs @ [transfer_to_json E ?new]))\<rparr>"
  have first: "snd (transfer_request E today fs from_iban to_iban' concept transfer_type' date amount) = ?fs1"
    using transfer_scan [OF v s w] n by simp
  have s1: "stored_records (transfers_store ?fs1) = Some (rs @ [transfer_to_json E ?new])"
    by (simp add: stored_records_def)
  have w1: "\<forall>r\<in>set (rs @ [transfer_to_json E ?new]). is_transfer_record r"
    using w transfer_to_json_record by auto
  have "agrees E (transfer_to_json E ?new) ?new"
    using e by (simp add: transfer_to_json_agrees new_request_def)
  then have "\<exists>r\<in>set (rs @ [transfer_to_json E ?new]). agrees E r ?new" by simp
  then show ?thesis using transfer_scan [OF v s1 w1] first by simp
qed

lemma rent_valid:
  "validate_transfer whole_numbers \<lparr>year = 2026, month = 11, day = 3\<rparr>
     ''ES9121000418450200051332'' ''ES8200000000000000000000'' ''monthly rent''
     ''ORDINARY'' ''03/11/2026'' (JNum 100) = Inr ()"
  by code_simp



text \<open>
  Claim C9.  When \<open>transfer_request\<close> raises \<open>AccountManagementException\<close>, the transfers
  store is what it was before the call; and the store differs after a call only if the
  validations passed and the scan of the loaded list found no duplicate.
\<close>

theorem transfer_error_keeps_store:
  "(transfer_request E today fs from_iban to_iban' concept transfer_type' date amount
      = (Inl (AccountManagementException msg), fs')
    \<longrightarrow> transfers_store fs' = transfers_store fs)
   \<and> (transfers_store (snd (transfer_request E today fs from_iban to_iban' concept transfer_type' date amount))
        \<noteq> transfers_store fs
      \<longrightarrow> validate_transfer E today from_iban to_iban' concept transfer_type' date amount = Inr ()
          \<and> (\<exists>l xs. load_store (transfers_store fs) = Inr l \<and> py_iter l = Inr xs
                \<and> find_duplicate E (new_request from_iban to_iban' concept transfer_type' date amount) xs
                    = Inr ()))"
proof (rule conjI)
  show "transfer_request E today fs from_iban to_iban' concept transfer_type' date amount
      = (Inl (AccountManagementException msg), fs')
    \<longrightarrow> transfers_store fs' = transfers_store fs"
    using transfer_request_error by blast
next
  show "transfers_store (snd (transfer_request E today fs from_iban to_iban' concept transfer_type' date amount))
        \<noteq> transfers_store fs
      \<longrightarrow> validate_transfer E today from_iban to_iban' concept transfer_type' date amount = Inr ()
          \<and> (\<exists>l xs. load_store (transfers_store fs) = Inr l \<and> py_iter l = Inr xs
                \<and> find_duplicate E (new_request from_iban to_iban' concept transfer_type' date amount) xs
                    = Inr ())"
  proof
    assume "transfers_store (snd (transfer_request E today fs from_iban to_iban' concept transfer_type' date amount))
        \<noteq> transfers_store fs"
    then have "snd (transfer_request E today fs from_iban to_iban' concept transfer_type' date amount) \<noteq> fs"
      by auto
    then show "validate_transfer E today from_iban to_iban' concept transfer_type' date amount = Inr ()
          \<and> (\<exists>l xs. load_store (transfers_store fs) = Inr l \<and> py_iter l = Inr xs
                \<and> find_duplicate E (new_request from_iban to_iban' concept transfer_type' date amount) xs
                    = Inr ())"
      by (rule transfer_request_changed)
  qed
qed

theorem transfer_error_keeps_store_witness:
  "transfer_request whole_numbers \<lparr>year = 2026, month = 11, day = 3\<rparr>
        (transfer_fs (Content (JArr [transfer_to_json whole_numbers (rent ''monthly rent'')])))
        ''ES9121000418450200051332'' ''ES8200000000000000000000'' ''monthly rent''
        ''ORDINARY'' ''03/11/2026'' (JNum 100)
       = (Inl (AccountManagementException ''Duplicated transfer in transfer list''),
          transfer_fs (Content (JArr [transfer_to_json whole_numbers (rent ''monthly rent'')])))
   \<and> transfers_store (snd (transfer_request whole_numbers \<lparr>year = 2026, month = 11, day = 3\<rparr>
        (transfer_fs Absent)
        ''ES9121000418450200051332'' ''ES8200000000000000000000'' ''monthly rent''
        ''ORDINARY'' ''03/11/2026'' (JNum 100)))
       = Content (JArr [transfer_to_json whole_numbers (rent ''monthly rent'')])
   \<and> transfers_store (transfer_fs Absent) = Absent
   \<and> find_duplicate whole_numbers (rent ''monthly rent'') [] = Inr ()"
proof -
  let ?r = "transfer_to_json whole_numbers (rent ''monthly rent'')"
  let ?fs = "transfer_fs (Content (JArr [?r]))"
  have s: "stored_records (transfers_store ?fs) = Some [?r]"
    by (simp add: transfer_fs_def stored_records_def)
  have w: "\<forall>r\<in>set [?r]. is_transfer_record r"
    by (simp add: transfer_to_json_record)
  have a: "agrees whole_numbers ?r (rent ''monthly rent'')"
    by (simp add: transfer_to_json_agrees whole_numbers_def)
  have d: "transfer_request whole_numbers \<lparr>year = 2026, month = 11, day = 3\<rparr> ?fs
        ''ES9121000418450200051332'' ''ES8200000000000000000000'' ''monthly rent''
        ''ORDINARY'' ''03/11/2026'' (JNum 100)
       = (Inl (AccountManagementException ''Duplicated transfer in transfer list''), ?fs)"
    using transfer_scan [OF rent_valid s w] a by (simp add: rent_def)
  have s0: "stored_records (transfers_store (transfer_fs Absent)) = Some []"
    by (simp add: transfer_fs_def stored_records_def)
  have ok: "transfer_request whole_numbers \<lparr>year = 2026, month = 11, day = 3\<rparr> (transfer_fs Absent)
        ''ES9121000418450200051332'' ''ES8200000000000000000000'' ''monthly rent''
        ''ORDINARY'' ''03/11/2026'' (JNum 100)
       = (Inr (transfer_code whole_numbers (rent ''monthly rent'')),
          (transfer_fs Absent)\<lparr>transfers_store := Content (JArr [?r])\<rparr>)"
    using transfer_scan [OF rent_valid s0] by (simp add: rent_def)
  have c: "transfers_store (transfer_fs Absent) = Absent" by (simp add: transfer_fs_def)
  from transfer_error_keeps_store
         [of whole_numbers "\<lparr>year = 2026, month = 11, day = 3\<rparr>" ?fs
             "''ES9121000418450200051332''" "''ES8200000000000000000000''" "''monthly rent''"
             "''ORDINARY''" "''03/11/2026''" "JNum 100"
             "''Duplicated transfer in transfer list''" ?fs]
       transfer_error_keeps_store
         [of whole_numbers "\<lparr>year = 2026, month = 11, day = 3\<rparr>" "transfer_fs Absent"
             "''ES9121000418450200051332''" "''ES8200000000000000000000''" "''monthly rent''"
             "''ORDINARY''" "''03/11/2026''" "JNum 100"]
       d ok c
  show ?thesis by simp
qed

section \<open>Balances: properties\<close>






section \<open>Transfer dates: properties\<close>















text \<open>
  A year before 2025 is reported as a past date, not as an invalid format, whenever the
  clock is in 2025 or later: the comparison with the current date comes first.
\<close>

lemma year_2024_is_past:
  "validate_transfer_date \<lparr>year = 2026, month = 11, day = 3\<rparr> ''01/01/2024''
     = Inl (AccountManagementException ''Transfer date must be today or later.'')"
  by code_simp

section \<open>Concepts: properties\<close>

lemma runs_nonempty: "runs sep s \<noteq> []"
  by (induction s) (auto split: list.splits)

lemma runs_free: "\<forall>c\<in>set w. \<not> sep c \<Longrightarrow> runs sep w = [w]"
  by (induction w) auto

lemma runs_append:
  "\<forall>c\<in>set w. \<not> sep c \<Longrightarrow> sep c \<Longrightarrow> runs sep (w @ c # r) = w # runs sep r"
  by (induction w) auto

lemma runs_Cons:
  "runs sep s = w # ws \<Longrightarrow>
     (\<forall>c\<in>set w. \<not> sep c)
     \<and> (if ws = [] then s = w else \<exists>c r. sep c \<and> s = w @ c # r \<and> runs sep r = ws)"
proof (induction s arbitrary: w ws)
  case Nil
  then show ?case by auto
next
  case (Cons a s)
  show ?case
  proof (cases "sep a")
    case True
    with Cons.prems have "w = []" "ws = runs sep s" by auto
    with True runs_nonempty [of sep s] show ?thesis by auto
  next
    case False
    obtain v vs where r: "runs sep s = v # vs"
      using runs_nonempty [of sep s] by (cases "runs sep s") auto
    with False Cons.prems have w: "w = a # v" "ws = vs" by auto
    from Cons.IH [OF r] have
      f: "\<forall>c\<in>set v. \<not> sep c"
      and i: "if vs = [] then s = v else \<exists>c r. sep c \<and> s = v @ c # r \<and> runs sep r = vs"
      by blast+
    show ?thesis
    proof (cases "vs = []")
      case True
      with f i w False show ?thesis by auto
    next
      case vs: False
      with i obtain c r where "sep c" "s = v @ c # r" "runs sep r = vs" by auto
      then have "sep c \<and> a # s = (a # v) @ c # r \<and> runs sep r = vs" by simp
      with f w False vs show ?thesis by auto
    qed
  qed
qed

lemma runs_snoc_sep: "sep c \<Longrightarrow> runs sep (w @ [c]) = runs sep w @ [[]]"
proof (induction w)
  case Nil
  then show ?case by simp
next
  case (Cons a w)
  obtain v vs where "runs sep w = v # vs"
    using runs_nonempty [of sep w] by (cases "runs sep w") auto
  with Cons show ?case by simp
qed

lemma runs_member: "c \<in> set s \<Longrightarrow> \<not> sep c \<Longrightarrow> \<exists>w\<in>set (runs sep s). c \<in> set w"
proof (induction s)
  case Nil
  then show ?case by simp
next
  case (Cons a s)
  obtain v vs where r: "runs sep s = v # vs"
    using runs_nonempty [of sep s] by (cases "runs sep s") auto
  show ?case
  proof (cases "c = a")
    case True
    with Cons.prems r show ?thesis by auto
  next
    case False
    with Cons have "\<exists>w\<in>set (runs sep s). c \<in> set w" by auto
    with r show ?thesis by (cases "sep a") auto
  qed
qed


lemma alpha_not_space: "is_alpha c \<Longrightarrow> \<not> is_space c"
  by (auto simp: is_alpha_def is_space_def ord_def)

lemma letter_class:
  "atom_matches (Cls [(CHR ''a'', CHR ''z''), (CHR ''A'', CHR ''Z'')]) c = is_alpha c"
  by (simp add: is_alpha_def)

lemma space_class: "atom_matches Space c = is_space c"
  by (simp add: is_space_def)

lemma lplus_atoms: "lplus {[c] | c. P c} = {w. w \<noteq> [] \<and> (\<forall>c\<in>set w. P c)}"
proof (intro set_eqI iffI)
  fix w assume "w \<in> lplus {[c] | c. P c}"
  then obtain j where "w \<in> lpow {[c] | c. P c} (Suc j)" unfolding lplus_def by blast
  then have "length w = Suc j \<and> (\<forall>c\<in>set w. P c)" unfolding lpow_atoms by simp
  then show "w \<in> {w. w \<noteq> [] \<and> (\<forall>c\<in>set w. P c)}" by auto
next
  fix w assume "w \<in> {w. w \<noteq> [] \<and> (\<forall>c\<in>set w. P c)}"
  then obtain j where "length w = Suc j" "\<forall>c\<in>set w. P c" by (cases w) auto
  then have "w \<in> lpow {[c] | c. P c} (Suc j)" unfolding lpow_atoms by simp
  then show "w \<in> lplus {[c] | c. P c}" unfolding lplus_def by blast
qed

lemma lupto_atoms: "lupto {[c] | c. P c} k = {w. length w \<le> k \<and> (\<forall>c\<in>set w. P c)}"
  unfolding lupto_def lpow_atoms by auto

lemma lang_Rep_range:
  "lang (Rep m n (Atom a)) =
     {w. m \<le> length w \<and> length w \<le> m + (n - m) \<and> (\<forall>c\<in>set w. atom_matches a c)}"
proof (intro set_eqI iffI)
  fix w assume "w \<in> lang (Rep m n (Atom a))"
  then show "w \<in> {w. m \<le> length w \<and> length w \<le> m + (n - m) \<and> (\<forall>c\<in>set w. atom_matches a c)}"
    unfolding lang.simps lpow_atoms lupto_atoms conc_def by auto
next
  fix w assume "w \<in> {w. m \<le> length w \<and> length w \<le> m + (n - m) \<and> (\<forall>c\<in>set w. atom_matches a c)}"
  then have w: "m \<le> length w" "length w \<le> m + (n - m)" "\<forall>c\<in>set w. atom_matches a c" by simp_all
  have "length (take m w) = m \<and> (\<forall>c\<in>set (take m w). atom_matches a c)"
    using w by (auto dest: in_set_takeD)
  moreover have "length (drop m w) \<le> n - m \<and> (\<forall>c\<in>set (drop m w). atom_matches a c)"
    using w by (auto dest: in_set_dropD)
  moreover have "w = take m w @ drop m w" by simp
  ultimately show "w \<in> lang (Rep m n (Atom a))"
    unfolding lang.simps lpow_atoms lupto_atoms conc_def by blast
qed

lemma lang_letters: "lang letters = word_lang"
  unfolding letters_def lang.simps lplus_atoms by (simp add: is_alpha_def word_lang_def)

lemma lang_concept_words:
  "lang concept_words = conc word_lang (lplus (conc space_lang word_lang))"
  unfolding concept_words_def lang.simps lang_letters space_lang_def space_class ..

lemma plain_concept_words: "plain concept_words"
  by (simp add: concept_words_def letters_def lplus_atoms conc_def)

lemma pow_runs:
  assumes "\<forall>c\<in>set w. is_alpha c" and "r \<in> lpow (conc space_lang word_lang) k"
  shows "\<exists>ws. runs is_space (w @ r) = w # ws \<and> length ws = k
           \<and> list_all (\<lambda>w. w \<noteq> [] \<and> list_all is_alpha w) ws"
  using assms
proof (induction k arbitrary: w r)
  case 0
  then have "\<forall>c\<in>set w. \<not> is_space c" using alpha_not_space by blast
  with 0 show ?case by (simp add: runs_free)
next
  case (Suc k)
  from Suc.prems(2) obtain c w1 r' where r: "r = (c # w1) @ r'" and c: "is_space c"
    and w1: "w1 \<in> word_lang" and r': "r' \<in> lpow (conc space_lang word_lang) k"
    unfolding lpow.simps conc_def space_lang_def by auto
  from w1 have a1: "\<forall>c\<in>set w1. is_alpha c" and n1: "w1 \<noteq> []" by (simp_all add: word_lang_def)
  from Suc.IH [OF a1 r'] obtain ws where
    ws: "runs is_space (w1 @ r') = w1 # ws" "length ws = k"
        "list_all (\<lambda>w. w \<noteq> [] \<and> list_all is_alpha w) ws" by blast
  have f: "\<forall>c\<in>set w. \<not> is_space c" using Suc.prems(1) alpha_not_space by blast
  have "runs is_space (w @ r) = w # w1 # ws"
    unfolding r using runs_append [OF f c, of "w1 @ r'"] ws(1) by simp
  moreover have "list_all (\<lambda>w. w \<noteq> [] \<and> list_all is_alpha w) (w1 # ws)"
    using ws(3) a1 n1 by (simp add: list_all_iff)
  ultimately show ?case using ws(2) by simp
qed

lemma runs_pow:
  assumes "runs is_space s = w # ws" and "length ws = k"
    and "list_all (\<lambda>w. w \<noteq> [] \<and> list_all is_alpha w) (w # ws)"
  shows "s \<in> conc word_lang (lpow (conc space_lang word_lang) k)"
  using assms
proof (induction k arbitrary: s w ws)
  case 0
  then have "ws = []" by simp
  with runs_Cons [OF "0.prems"(1)] have "s = w" by simp
  moreover have "w \<in> word_lang" using "0.prems"(3) by (simp add: word_lang_def list_all_iff)
  ultimately show ?case by (simp add: conc_def)
next
  case (Suc k)
  then obtain w1 ws' where ws: "ws = w1 # ws'" "length ws' = k" by (cases ws) auto
  with runs_Cons [OF Suc.prems(1)] obtain c r where
    c: "is_space c" and s: "s = w @ c # r" and r: "runs is_space r = w1 # ws'" by auto
  have g: "list_all (\<lambda>w. w \<noteq> [] \<and> list_all is_alpha w) (w1 # ws')"
    using Suc.prems(3) ws by simp
  from Suc.IH [OF r ws(2) g] obtain u v where
    uv: "r = u @ v" "u \<in> word_lang" "v \<in> lpow (conc space_lang word_lang) k"
    unfolding conc_def by blast
  have "[c] @ u \<in> conc space_lang word_lang"
    using c uv(2) unfolding conc_def space_lang_def by blast
  then have "([c] @ u) @ v \<in> lpow (conc space_lang word_lang) (Suc k)"
    using uv(3) unfolding lpow.simps conc_def by blast
  moreover have "w \<in> word_lang" using Suc.prems(3) by (simp add: word_lang_def list_all_iff)
  moreover have "s = w @ (([c] @ u) @ v)" using s uv(1) by simp
  ultimately show ?case unfolding conc_def by blast
qed

lemma concept_words_iff: "s \<in> lang concept_words \<longleftrightarrow> is_words s"
proof
  assume "s \<in> lang concept_words"
  then obtain w r j where s: "s = w @ r" and w: "w \<in> word_lang"
    and r: "r \<in> lpow (conc space_lang word_lang) (Suc j)"
    unfolding lang_concept_words conc_def lplus_def by blast
  from w have a: "\<forall>c\<in>set w. is_alpha c" and n: "w \<noteq> []" by (simp_all add: word_lang_def)
  from pow_runs [OF a r] obtain ws where
    "runs is_space (w @ r) = w # ws" "length ws = Suc j"
    "list_all (\<lambda>w. w \<noteq> [] \<and> list_all is_alpha w) ws" by blast
  then show "is_words s" using s a n by (simp add: is_words_def list_all_iff)
next
  assume i: "is_words s"
  obtain w ws where r: "runs is_space s = w # ws"
    using runs_nonempty [of is_space s] by (cases "runs is_space s") auto
  with i obtain j where j: "length ws = Suc j" by (cases ws) (auto simp: is_words_def)
  have "list_all (\<lambda>w. w \<noteq> [] \<and> list_all is_alpha w) (w # ws)"
    using i r by (simp add: is_words_def)
  from runs_pow [OF r j this]
  show "s \<in> lang concept_words"
    unfolding lang_concept_words conc_def lplus_def by blast
qed



lemma fullmatch_Look: "fullmatch (Seq (Look l) r) s \<longleftrightarrow> rx_run l (0, s) \<noteq> [] \<and> fullmatch r s"
  by (simp add: fullmatch_def)

lemma dot_class: "atom_matches Dot c = (c \<noteq> newline)"
  by simp

lemma concept_length_iff:
  "rx_run concept_length (0, s) \<noteq> [] \<longleftrightarrow>
     (\<exists>w t. s = w @ t \<and> 10 \<le> length w \<and> length w \<le> 30 \<and> newline \<notin> set w
            \<and> (t = [] \<or> t = [newline]))"
proof -
  let ?r = "Rep 10 30 (Atom Dot)"
  have run: "set (rx_run ?r (0, s)) = {(0 + length w, t) | w t. s = w @ t \<and> w \<in> lang ?r}"
    using rx_run_lang [of ?r] unfolding recognises_def by simp
  have l: "w \<in> lang ?r \<longleftrightarrow> 10 \<le> length w \<and> length w \<le> 30 \<and> newline \<notin> set w" for w
    unfolding lang_Rep_range dot_class by auto
  have "rx_run concept_length (0, s) \<noteq> [] \<longleftrightarrow>
          (\<exists>p\<in>set (rx_run ?r (0, s)). snd p = [] \<or> snd p = [newline])"
    unfolding concept_length_def by (auto simp: split: if_splits)
  also have "\<dots> \<longleftrightarrow> (\<exists>w t. s = w @ t \<and> w \<in> lang ?r \<and> (t = [] \<or> t = [newline]))"
    unfolding run by auto
  finally show ?thesis unfolding l by simp
qed

lemma concept_pattern_iff:
  "fullmatch concept_pattern s \<longleftrightarrow>
     10 \<le> length s \<and> length s \<le> 30 \<and> newline \<notin> set s \<and> is_words s"
proof -
  have m: "fullmatch concept_pattern s \<longleftrightarrow> rx_run concept_length (0, s) \<noteq> [] \<and> is_words s"
    unfolding concept_pattern_def fullmatch_Bol fullmatch_Look fullmatch_Eol
      fullmatch_plain [OF plain_concept_words] concept_words_iff ..
  show ?thesis
  proof
    assume "fullmatch concept_pattern s"
    with m obtain w t where s: "s = w @ t" and w: "10 \<le> length w" "length w \<le> 30" "newline \<notin> set w"
      and t: "t = [] \<or> t = [newline]" and i: "is_words s"
      unfolding concept_length_iff by blast
    have "t \<noteq> [newline]"
    proof
      assume "t = [newline]"
      moreover have "is_space newline" by (simp add: is_space_def newline_def ord_def)
      ultimately have "runs is_space s = runs is_space w @ [[]]"
        using s runs_snoc_sep by simp
      then have "[] \<in> set (runs is_space s)" by simp
      with i show False by (auto simp: is_words_def list_all_iff)
    qed
    with t s have "s = w" by simp
    with w i show "10 \<le> length s \<and> length s \<le> 30 \<and> newline \<notin> set s \<and> is_words s" by simp
  next
    assume a: "10 \<le> length s \<and> length s \<le> 30 \<and> newline \<notin> set s \<and> is_words s"
    then have "s = s @ [] \<and> 10 \<le> length s \<and> length s \<le> 30 \<and> newline \<notin> set s
                 \<and> ([] = [] \<or> [] = [newline])" by simp
    then have "rx_run concept_length (0, s) \<noteq> []" unfolding concept_length_iff by blast
    with a m show "fullmatch concept_pattern s" by simp
  qed
qed

lemma is_words_space: "is_words s \<Longrightarrow> \<exists>c\<in>set s. is_space c"
proof (rule ccontr)
  assume i: "is_words s" and "\<not> (\<exists>c\<in>set s. is_space c)"
  then have "runs is_space s = [s]" by (simp add: runs_free)
  with i show False by (simp add: is_words_def)
qed

lemma is_words_chars: "is_words s \<Longrightarrow> c \<in> set s \<Longrightarrow> is_space c \<or> is_alpha c"
proof (rule ccontr)
  assume i: "is_words s" and c: "c \<in> set s" and n: "\<not> (is_space c \<or> is_alpha c)"
  then obtain w where "w \<in> set (runs is_space s)" "c \<in> set w"
    using runs_member [of c s is_space] by blast
  with i have "is_alpha c" by (auto simp: is_words_def list_all_iff)
  with n show False by simp
qed

lemma digit_not_word_char: "is_digit c \<Longrightarrow> \<not> (is_space c \<or> is_alpha c)"
  by (auto simp: is_digit_def is_space_def is_alpha_def ord_def)





text \<open>
  Claim C8, as amended.  \<open>validate_concept\<close> succeeds exactly when the string has 10 to 30
  characters, contains no line feed, and consists of at least two runs of letters with
  one whitespace character between neighbouring runs.  Every other string fails with the
  message of an invalid concept; among them the strings without whitespace (a single
  word), the strings with a digit, and the strings shorter than 10 or longer than 30.
\<close>

theorem validate_concept_spec:
  "(validate_concept s = Inr () \<longleftrightarrow>
      10 \<le> length s \<and> length s \<le> 30 \<and> newline \<notin> set s \<and> is_words s)
   \<and> (validate_concept s \<noteq> Inr ()
        \<longrightarrow> validate_concept s = Inl (AccountManagementException ''Invalid concept format''))
   \<and> ((\<forall>c\<in>set s. \<not> is_space c) \<or> (\<exists>c\<in>set s. is_digit c) \<or> length s < 10 \<or> 30 < length s
        \<longrightarrow> validate_concept s = Inl (AccountManagementException ''Invalid concept format''))"
proof -
  have v: "validate_concept s =
             (if 10 \<le> length s \<and> length s \<le> 30 \<and> newline \<notin> set s \<and> is_words s then Inr ()
              else Inl (AccountManagementException ''Invalid concept format''))"
    unfolding validate_concept_def concept_pattern_iff by simp
  have "\<not> is_words s" if "(\<forall>c\<in>set s. \<not> is_space c) \<or> (\<exists>c\<in>set s. is_digit c)"
    using that is_words_space [of s] is_words_chars [of s] digit_not_word_char by blast
  then show ?thesis unfolding v by auto
qed



theorem validate_concept_spec_witness:
  "validate_concept ''monthly rent'' = Inr ()
   \<and> validate_concept ''rent'' = Inl (AccountManagementException ''Invalid concept format'')
   \<and> validate_concept ''monthlyrent'' = Inl (AccountManagementException ''Invalid concept format'')
   \<and> validate_concept ''rent for 2026'' = Inl (AccountManagementException ''Invalid concept format'')"
proof -
  have a: "10 \<le> length ''monthly rent'' \<and> length ''monthly rent'' \<le> 30
             \<and> newline \<notin> set ''monthly rent'' \<and> is_words ''monthly rent''"
    by code_simp
  have c: "length ''rent'' < 10" by simp
  have d: "\<forall>c\<in>set ''monthlyrent''. \<not> is_space c" by code_simp
  have e: "\<exists>c\<in>set ''rent for 2026''. is_digit c" by code_simp
  have 1: "validate_concept ''monthly rent'' = Inr ()"
    by (rule iffD2 [OF conjunct1 [OF validate_concept_spec [of "''monthly rent''"]] a])
  have 2: "validate_concept ''rent'' = Inl (AccountManagementException ''Invalid concept format'')"
    by (rule mp [OF conjunct2 [OF conjunct2 [OF validate_concept_spec [of "''rent''"]]]])
       (rule disjI2, rule disjI2, rule disjI1, rule c)
  have 3: "validate_concept ''monthlyrent'' = Inl (AccountManagementException ''Invalid concept format'')"
    by (rule mp [OF conjunct2 [OF conjunct2 [OF validate_concept_spec [of "''monthlyrent''"]]]])
       (rule disjI1, rule d)
  have 4: "validate_concept ''rent for 2026'' = Inl (AccountManagementException ''Invalid concept format'')"
    by (rule mp [OF conjunct2 [OF conjunct2 [OF validate_concept_spec [of "''rent for 2026''"]]]])
       (rule disjI2, rule disjI1, rule e)
  from 1 2 3 4 show ?thesis by (intro conjI)
qed



text \<open>
  The claim C8 as first stated accepts every whitespace between the runs.  The line
  feed is whitespace, yet two words of 11 characters in all with a line feed between
  them are refused: the length test \<open>.{10,30}\<close> stops at a line feed.
\<close>

theorem newline_separator_counterexample:
  "length (''hello'' @ [newline] @ ''world'') = 11
   \<and> is_words (''hello'' @ [newline] @ ''world'')
   \<and> validate_concept (''hello'' @ [newline] @ ''world'')
       = Inl (AccountManagementException ''Invalid concept format'')"
  by code_simp

end
